theory Spec2Isabelle
  imports Main "HOL-Library.Word" "HOL-Library.Signed_Division"
begin

section \<open>C arithmetic, memory and loops\<close>

text \<open>
  The blur of the repository exists five times: a sequential function, an OpenMP
  function, an MPI program, an OpenCL kernel with its host function and a CUDA kernel
  with its host function.  Each is embedded here from its own source text, over one
  model of the memory: a store from addresses to bytes, in which the input and the
  output buffer are pointers.

  The C type \<open>int\<close> has 32 bits.  A value of that type is modelled by an \<open>int\<close> between
  \<open>- 2147483648\<close> and \<open>INT_MAX\<close>, and every sum, difference and product that the sources
  compute in \<open>int\<close> is brought back into that range by \<open>int32\<close>, the two's complement
  wrap-around of the compiled programs (ISO C gives a signed overflow no meaning at
  all).  The loop counters are compared with a limit of type \<open>int\<close> before every
  increment and the radius is the half of an \<open>int\<close>, so neither can leave the range.
  The operator \<open>/\<close> on \<open>int\<close> truncates toward zero, which is \<open>sdiv\<close>; a zero divisor
  traps, and so does the one quotient that is out of range; a trap is the value \<open>None\<close>.
  An \<open>unsigned char\<close> is an 8-bit word; the cast \<open>(unsigned char) q\<close> is \<open>word_of_int q\<close>,
  which reduces modulo 256.  A conversion to \<open>size_t\<close> reduces modulo \<open>2 ^ 64\<close>, one to
  \<open>unsigned int\<close> modulo \<open>2 ^ 32\<close>.
\<close>

type_synonym byte = "8 word"
type_synonym addr = nat
type_synonym mem = "addr \<Rightarrow> byte"

definition INT_MAX :: int where
  "INT_MAX = 2147483647"

definition int32 :: "int \<Rightarrow> int" where
  "int32 n = (n + 2147483648) mod 4294967296 - 2147483648"

definition uint32 :: "int \<Rightarrow> int" where
  "uint32 n = n mod 4294967296"

definition size_t :: "int \<Rightarrow> nat" where
  "size_t n = nat (n mod 18446744073709551616)"

definition c_div :: "int \<Rightarrow> int \<Rightarrow> int option" where
  "c_div a b = (if b = 0 \<or> (a = - 2147483648 \<and> b = - 1) then None else Some (a sdiv b))"

text \<open>The address of \<open>p[i]\<close> for a byte pointer \<open>p\<close>.\<close>

definition idx :: "addr \<Rightarrow> int \<Rightarrow> addr" where
  "idx p i = nat (int p + i)"

text \<open>The bytes \<open>p[0], ..., p[n-1]\<close> of a memory.\<close>

definition buffer :: "mem \<Rightarrow> addr \<Rightarrow> nat \<Rightarrow> byte list" where
  "buffer M p n = map (\<lambda>i. M (p + i)) [0..<n]"

text \<open>
  \<open>for (v = i; v <= hi; v++) s = body v s\<close>, for a body that cannot trap, and
  \<open>for (v = i; v < hi; v++) s = body v s\<close>, for a body that can.
\<close>

function for_upto :: "int \<Rightarrow> int \<Rightarrow> (int \<Rightarrow> 's \<Rightarrow> 's) \<Rightarrow> 's \<Rightarrow> 's" where
  "for_upto i hi body s = (if i \<le> hi then for_upto (i + 1) hi body (body i s) else s)"
  by pat_completeness auto
termination
  by (relation "measure (\<lambda>(i, hi, body, s). nat (hi + 1 - i))") auto

function for_below :: "int \<Rightarrow> int \<Rightarrow> (int \<Rightarrow> 's \<Rightarrow> 's option) \<Rightarrow> 's \<Rightarrow> 's option" where
  "for_below i hi body s =
     (if i < hi then (case body i s of None \<Rightarrow> None | Some s' \<Rightarrow> for_below (i + 1) hi body s')
      else Some s)"
  by pat_completeness auto
termination
  by (relation "measure (\<lambda>(i, hi, body, s). nat (hi - i))") auto

declare for_upto.simps [simp del] for_below.simps [simp del]

text \<open>
  The work units of a parallel region (loop iterations, work-items, threads), run one
  after the other in the order \<open>ts\<close> in which the scheduler happens to complete
  them.  Every unit of the backends below writes cells that no other unit writes and reads
  only the input image, so running the units one at a time loses no behaviour.
\<close>

primrec for_each :: "'a list \<Rightarrow> ('a \<Rightarrow> 's \<Rightarrow> 's option) \<Rightarrow> 's \<Rightarrow> 's option" where
  "for_each [] body s = Some s"
| "for_each (t # ts) body s =
     (case body t s of None \<Rightarrow> None | Some s' \<Rightarrow> for_each ts body s')"

definition schedule_of :: "'a list \<Rightarrow> 'a list \<Rightarrow> bool" where
  "schedule_of units ts \<longleftrightarrow> distinct ts \<and> set ts = set units"

text \<open>\<open>memcpy\<close>-like transfers: the memory \<open>M\<close> with the bytes \<open>bs\<close> stored from \<open>p\<close> on.\<close>

definition store_buffer :: "mem \<Rightarrow> addr \<Rightarrow> byte list \<Rightarrow> mem" where
  "store_buffer M p bs = (\<lambda>a. if p \<le> a \<and> a < p + length bs then bs ! (a - p) else M a)"

text \<open>Two allocations, \<open>n\<close> bytes at \<open>p\<close> and \<open>m\<close> bytes at \<open>q\<close>, that do not overlap.\<close>

definition separate :: "addr \<Rightarrow> nat \<Rightarrow> addr \<Rightarrow> nat \<Rightarrow> bool" where
  "separate p n q m \<longleftrightarrow> p + n \<le> q \<or> q + m \<le> p"

text \<open>
  How a program ends: it leaves through \<open>exit\<close> or \<open>MPI_Abort\<close> after a message, it traps,
  or it runs to its end with a memory.
\<close>

datatype run = Exited string int | Trapped | Finished mem

definition EXIT_FAILURE :: int where
  "EXIT_FAILURE = 1"

section \<open>The sequential backend\<close>

text \<open>Lines 113 to 126 of the sequential source: the window accumulation of one sample.\<close>

definition accumulate_color ::
  "mem \<Rightarrow> addr \<Rightarrow> int \<Rightarrow> int \<Rightarrow> int \<Rightarrow> int \<Rightarrow> int \<Rightarrow> int \<Rightarrow> int \<Rightarrow> int \<times> int" where
  "accumulate_color M input width height channels k_offset x y c =
     for_upto (- k_offset) k_offset (\<lambda>m.
       for_upto (- k_offset) k_offset (\<lambda>n (sum, count).
         let nx = int32 (x + n); ny = int32 (y + m) in
         if nx \<ge> 0 \<and> nx < width \<and> ny \<ge> 0 \<and> ny < height then
           let src_idx = int32 (int32 (int32 (int32 (ny * width) + nx) * channels) +
                                  (if channels = 1 then 0 else c))
           in (int32 (sum + uint (M (idx input src_idx))), int32 (count + 1))
         else (sum, count))) (0, 0)"

definition apply_box_blur_color ::
  "mem \<Rightarrow> addr \<Rightarrow> addr \<Rightarrow> int \<Rightarrow> int \<Rightarrow> int \<Rightarrow> int \<Rightarrow> mem option" where
  "apply_box_blur_color M input output_rgb width height channels kernel_size =
     (let k_offset = kernel_size sdiv 2 in
      for_below 0 height (\<lambda>y.
        for_below 0 width (\<lambda>x.
          for_below 0 3 (\<lambda>c M.
            let (sum, count) = accumulate_color M input width height channels k_offset x y c;
                dst_idx = int32 (int32 (int32 (int32 (y * width) + x) * 3) + c)
            in case c_div sum count of
                 None \<Rightarrow> None
               | Some q \<Rightarrow> Some (M(idx output_rgb dst_idx := word_of_int q))))) M)"

section \<open>The shared-memory backend\<close>

definition accumulate_openmp ::
  "mem \<Rightarrow> addr \<Rightarrow> int \<Rightarrow> int \<Rightarrow> int \<Rightarrow> int \<Rightarrow> int \<Rightarrow> int \<Rightarrow> int \<Rightarrow> int \<times> int" where
  "accumulate_openmp M input width height channels k_offset x y c =
     for_upto (- k_offset) k_offset (\<lambda>m.
       for_upto (- k_offset) k_offset (\<lambda>n (sum, count).
         let nx = int32 (x + n); ny = int32 (y + m) in
         if nx \<ge> 0 \<and> nx < width \<and> ny \<ge> 0 \<and> ny < height then
           let src_idx = int32 (int32 (int32 (int32 (ny * width) + nx) * channels) +
                                  (if channels = 1 then 0 else c))
           in (int32 (sum + uint (M (idx input src_idx))), int32 (count + 1))
         else (sum, count))) (0, 0)"

text \<open>
  \<open>#pragma omp parallel for collapse(2)\<close> hands the iterations \<open>(y, x)\<close> of the two
  outer loops to the threads; \<open>schedule\<close> puts them in the order in which they are run.
\<close>

definition collapsed_iterations :: "int \<Rightarrow> int \<Rightarrow> (int \<times> int) list" where
  "collapsed_iterations height width = List.product [0..height - 1] [0..width - 1]"

definition apply_box_blur_openmp ::
  "((int \<times> int) list \<Rightarrow> (int \<times> int) list) \<Rightarrow>
   mem \<Rightarrow> addr \<Rightarrow> addr \<Rightarrow> int \<Rightarrow> int \<Rightarrow> int \<Rightarrow> int \<Rightarrow> mem option" where
  "apply_box_blur_openmp schedule M input output_rgb width height channels kernel_size =
     (let k_offset = kernel_size sdiv 2 in
      for_each (schedule (collapsed_iterations height width)) (\<lambda>(y, x).
        for_below 0 3 (\<lambda>c M.
          let (sum, count) = accumulate_openmp M input width height channels k_offset x y c;
              dst_idx = int32 (int32 (int32 (int32 (y * width) + x) * 3) + c)
          in case c_div sum count of
               None \<Rightarrow> None
             | Some q \<Rightarrow> Some (M(idx output_rgb dst_idx := word_of_int q)))) M)"

section \<open>The distributed backend\<close>

definition accumulate_mpi ::
  "mem \<Rightarrow> addr \<Rightarrow> int \<Rightarrow> int \<Rightarrow> int \<Rightarrow> int \<Rightarrow> int \<Rightarrow> int \<Rightarrow> int \<Rightarrow> int \<times> int" where
  "accumulate_mpi M input width height channels k_offset x y c =
     for_upto (- k_offset) k_offset (\<lambda>m.
       for_upto (- k_offset) k_offset (\<lambda>n (sum, count).
         let nx = int32 (x + n); ny = int32 (y + m) in
         if nx \<ge> 0 \<and> nx < width \<and> ny \<ge> 0 \<and> ny < height then
           let src_idx = int32 (int32 (int32 (int32 (ny * width) + nx) * channels) +
                                  (if channels = 1 then 0 else c))
           in (int32 (sum + uint (M (idx input src_idx))), int32 (count + 1))
         else (sum, count))) (0, 0)"

definition apply_box_blur_mpi ::
  "mem \<Rightarrow> addr \<Rightarrow> addr \<Rightarrow> int \<Rightarrow> int \<Rightarrow> int \<Rightarrow> int \<Rightarrow> int \<Rightarrow> int \<Rightarrow> mem option" where
  "apply_box_blur_mpi M input output_rgb width height channels kernel_size start_row' end_row' =
     (let k_offset = kernel_size sdiv 2 in
      for_below start_row' end_row' (\<lambda>y.
        for_below 0 width (\<lambda>x.
          for_below 0 3 (\<lambda>c M.
            let (sum, count) = accumulate_mpi M input width height channels k_offset x y c;
                local_y = int32 (y - start_row');
                dst_idx = int32 (int32 (int32 (int32 (local_y * width) + x) * 3) + c)
            in case c_div sum count of
                 None \<Rightarrow> None
               | Some q \<Rightarrow> Some (M(idx output_rgb dst_idx := word_of_int q))))) M)"

text \<open>
  Lines 87 to 90 of the distributed source, for the process \<open>rank\<close> of \<open>nproc\<close>
  processes (the source's \<open>size\<close>, which \<open>MPI_Comm_size\<close> sets to at least 1).  For a
  rank below \<open>nproc\<close> and a height that is an \<open>int\<close>, none of these values exceeds the
  height, so none of them wraps.
\<close>

definition rows_per_process :: "int \<Rightarrow> int \<Rightarrow> int" where
  "rows_per_process height nproc = height sdiv nproc"

definition start_row :: "int \<Rightarrow> int \<Rightarrow> int \<Rightarrow> int" where
  "start_row height nproc rank = rank * rows_per_process height nproc"

definition end_row :: "int \<Rightarrow> int \<Rightarrow> int \<Rightarrow> int" where
  "end_row height nproc rank =
     (if rank = nproc - 1 then height
      else start_row height nproc rank + rows_per_process height nproc)"

definition my_rows :: "int \<Rightarrow> int \<Rightarrow> int \<Rightarrow> int" where
  "my_rows height nproc rank = end_row height nproc rank - start_row height nproc rank"

text \<open>
  Lines 133 to 138: the entries \<open>recv_counts[i]\<close> and \<open>displs[i]\<close> that the root
  process computes for the gather, and the count \<open>my_rows * width * 3\<close> that a process
  passes as its send count in line 141.
\<close>

definition recv_counts :: "int \<Rightarrow> int \<Rightarrow> int \<Rightarrow> int \<Rightarrow> int" where
  "recv_counts width height nproc i =
     (let i_start = i * rows_per_process height nproc;
          i_end = (if i = nproc - 1 then height else i_start + rows_per_process height nproc)
      in int32 (int32 ((i_end - i_start) * width) * 3))"

definition displs :: "int \<Rightarrow> int \<Rightarrow> int \<Rightarrow> int \<Rightarrow> int" where
  "displs width height nproc i =
     (let i_start = i * rows_per_process height nproc
      in int32 (int32 (i_start * width) * 3))"

definition send_count :: "int \<Rightarrow> int \<Rightarrow> int \<Rightarrow> int \<Rightarrow> int" where
  "send_count width height nproc rank = int32 (int32 (my_rows height nproc rank * width) * 3)"

text \<open>
  \<open>MPI_Gatherv\<close> at the root: of the message of process \<open>i\<close>, at most \<open>recvcounts i\<close>
  bytes are stored into the receive buffer at displacement \<open>displs i\<close>.  The call has
  no outcome that the source looks at: lines 141 to 143 drop its return value.
\<close>

definition MPI_Gatherv ::
  "byte list list \<Rightarrow> mem \<Rightarrow> addr \<Rightarrow> (int \<Rightarrow> int) \<Rightarrow> (int \<Rightarrow> int) \<Rightarrow> mem" where
  "MPI_Gatherv messages M recvbuf recvcounts displs' =
     fold (\<lambda>i M. store_buffer M (idx recvbuf (displs' (int i)))
                   (take (nat (recvcounts (int i))) (messages ! i)))
       [0..<length messages] M"

text \<open>
  Lines 126 to 143 at the root: the counts and displacements of lines 133 to 138, then
  the gather of the messages of the processes into \<open>output_rgb_root\<close>.
\<close>

definition gather_at_root :: "byte list list \<Rightarrow> mem \<Rightarrow> addr \<Rightarrow> int \<Rightarrow> int \<Rightarrow> mem" where
  "gather_at_root messages M output_rgb_root width height =
     MPI_Gatherv messages M output_rgb_root
       (recv_counts width height (int (length messages)))
       (displs width height (int (length messages)))"

text \<open>
  One process of the distributed run: its own memory, the pointer \<open>input_rgb\<close> (which
  \<open>stbi_load\<close> returns at the root and \<open>malloc\<close> in line 94 elsewhere) and the pointer
  \<open>my_output\<close> that \<open>malloc\<close> returns in line 109; \<open>None\<close> is the null pointer.  Lines
  120 to 123: the broadcast stores the image of the root into \<open>input_rgb\<close>, then the
  process blurs its rows.
\<close>

record process =
  memory :: mem
  input_rgb :: "addr option"
  my_output :: "addr option"

definition mpi_compute ::
  "process \<Rightarrow> byte list \<Rightarrow> int \<Rightarrow> int \<Rightarrow> int \<Rightarrow> int \<Rightarrow> int \<Rightarrow> int \<Rightarrow> mem option" where
  "mpi_compute P img width height channels kernel_size nproc rank =
     apply_box_blur_mpi (store_buffer (memory P) (the (input_rgb P)) img)
       (the (input_rgb P)) (the (my_output P))
       width height channels kernel_size (start_row height nproc rank) (end_row height nproc rank)"

text \<open>
  Lines 69 to 143 for all processes together (\<open>procs ! 0\<close> is the root, \<open>output_rgb_root\<close>
  the pointer that \<open>malloc\<close> returns to it in line 102).  A null pointer from
  \<open>stbi_load\<close> or from one of the allocations ends the run through \<open>MPI_Abort\<close> (lines 70
  to 73 and 93 to 113); otherwise the result is the memory of the root after the gather
  into \<open>output_rgb_root\<close>.
\<close>

definition mpi_main ::
  "process list \<Rightarrow> addr option \<Rightarrow> int \<Rightarrow> int \<Rightarrow> int \<Rightarrow> int \<Rightarrow> run" where
  "mpi_main procs output_rgb_root width height channels kernel_size =
     (let nproc = int (length procs);
          ranks = [0..<length procs]
      in if input_rgb (procs ! 0) = None
           then Exited ''Error: Cannot read'' EXIT_FAILURE
         else if list_ex (\<lambda>rank. input_rgb (procs ! rank) = None) (tl ranks)
           then Exited ''Memory allocation failed on rank'' EXIT_FAILURE
         else if output_rgb_root = None
           then Exited ''Memory allocation failed on root.'' EXIT_FAILURE
         else if list_ex (\<lambda>rank. my_output (procs ! rank) = None) ranks
           then Exited ''Memory allocation failed on rank'' EXIT_FAILURE
         else
           let img = buffer (memory (procs ! 0)) (the (input_rgb (procs ! 0)))
                       (nat (int32 (int32 (width * height) * channels)));
               finals = map (\<lambda>rank. mpi_compute (procs ! rank) img width height channels
                          kernel_size nproc (int rank)) ranks
           in case those finals of
                None \<Rightarrow> Trapped
              | Some Ms \<Rightarrow>
                  Finished (gather_at_root
                    (map (\<lambda>rank. buffer (Ms ! rank) (the (my_output (procs ! rank)))
                           (nat (send_count width height nproc (int rank)))) ranks)
                    (Ms ! 0) (the output_rgb_root) width height))"




section \<open>The accelerator backends\<close>

subsection \<open>OpenCL\<close>

definition accumulate_cl ::
  "mem \<Rightarrow> addr \<Rightarrow> int \<Rightarrow> int \<Rightarrow> int \<Rightarrow> int \<Rightarrow> int \<Rightarrow> int \<Rightarrow> int \<Rightarrow> int \<times> int" where
  "accumulate_cl M input width height channels k_offset x y c =
     for_upto (- k_offset) k_offset (\<lambda>m.
       for_upto (- k_offset) k_offset (\<lambda>n (sum, count).
         let ix = int32 (x + n); iy = int32 (y + m) in
         if ix \<ge> 0 \<and> ix < width \<and> iy \<ge> 0 \<and> iy < height then
           let src_idx = int32 (int32 (int32 (int32 (iy * width) + ix) * channels) +
                                  (if channels = 1 then 0 else c))
           in (int32 (sum + uint (M (idx input src_idx))), int32 (count + 1))
         else (sum, count))) (0, 0)"

text \<open>The kernel \<open>box_blur_kernel\<close> for the work-item with global id \<open>(gid0, gid1)\<close>.\<close>

definition box_blur_kernel_cl ::
  "mem \<Rightarrow> addr \<Rightarrow> addr \<Rightarrow> int \<Rightarrow> int \<Rightarrow> int \<Rightarrow> int \<Rightarrow> int \<times> int \<Rightarrow> mem option" where
  "box_blur_kernel_cl M input output width height channels kernel_size =
     (\<lambda>(gid0, gid1).
       let x = int32 gid0; y = int32 gid1 in
       if x \<ge> width \<or> y \<ge> height then Some M
       else
         let k_offset = kernel_size sdiv 2 in
         for_below 0 3 (\<lambda>c M.
           let (sum, count) = accumulate_cl M input width height channels k_offset x y c;
               dst_idx = int32 (int32 (int32 (int32 (y * width) + x) * 3) + c)
           in case c_div sum count of
                None \<Rightarrow> None
              | Some q \<Rightarrow> Some (M(idx output dst_idx := word_of_int q))) M)"

text \<open>The work-items of a two-dimensional range of global size \<open>{g0, g1}\<close>.\<close>

definition nd_range :: "int \<Rightarrow> int \<Rightarrow> (int \<times> int) list" where
  "nd_range g0 g1 = List.product [0..g0 - 1] [0..g1 - 1]"

text \<open>
  What the OpenCL runtime contributes to a run of \<open>apply_box_blur_opencl\<close>: the status
  of every call that the host checks (by the label it passes to \<open>check_error\<close>), the
  status of the first device query, the device memory with the two buffers it
  allocates, and the order \<open>cl_schedule\<close> in which it runs the work-items of a range.
\<close>

record cl_runtime =
  cl_err :: "string \<Rightarrow> int"
  gpu_err :: int
  device_memory :: mem
  d_input :: addr
  d_output :: addr
  cl_schedule :: "(int \<times> int) list \<Rightarrow> (int \<times> int) list"

definition CL_SUCCESS :: int where
  "CL_SUCCESS = 0"

definition CL_INVALID_WORK_GROUP_SIZE :: int where
  "CL_INVALID_WORK_GROUP_SIZE = - 54"

text \<open>
  The status of \<open>clEnqueueNDRangeKernel\<close>.  The program is built without options (line
  109), that is as OpenCL C 1.2 at most, and for such a kernel the OpenCL specification
  makes the call return \<open>CL_INVALID_WORK_GROUP_SIZE\<close> when a local size is given and a
  global size is not a multiple of it.  Every other reason to refuse the launch is
  left to the runtime.
\<close>

definition clEnqueueNDRangeKernel :: "cl_runtime \<Rightarrow> nat list \<Rightarrow> nat list \<Rightarrow> int" where
  "clEnqueueNDRangeKernel rt global_work_size local_work_size =
     (if list_ex (\<lambda>(g, l). g mod l \<noteq> 0) (zip global_work_size local_work_size)
      then CL_INVALID_WORK_GROUP_SIZE
      else cl_err rt ''Executing kernel'')"

definition check_error :: "int \<Rightarrow> string \<Rightarrow> (string \<times> int) option" where
  "check_error err operation = (if err \<noteq> CL_SUCCESS then Some (operation, err) else None)"

fun check_errors :: "(int \<times> string) list \<Rightarrow> (string \<times> int) option" where
  "check_errors [] = None"
| "check_errors ((err, operation) # rest) =
     (case check_error err operation of Some e \<Rightarrow> Some e | None \<Rightarrow> check_errors rest)"

text \<open>
  \<open>apply_box_blur_opencl\<close>: the host asks for the global size \<open>{width, height}\<close> in
  work-groups of 16 by 16 (lines 146 to 149).
\<close>

definition apply_box_blur_opencl ::
  "cl_runtime \<Rightarrow> mem \<Rightarrow> addr \<Rightarrow> addr \<Rightarrow> int \<Rightarrow> int \<Rightarrow> int \<Rightarrow> int \<Rightarrow> run" where
  "apply_box_blur_opencl rt H input_image output_image width height channels kernel_size =
     (let image_size = size_t (int32 (int32 (width * height) * channels));
          output_size = size_t (int32 (int32 (width * height) * 3));
          global_work_size = [size_t width, size_t height];
          local_work_size = [16, 16]
      in case check_errors
        [(cl_err rt ''Getting platform'', ''Getting platform''),
         (if gpu_err rt \<noteq> CL_SUCCESS then cl_err rt ''Getting device'' else CL_SUCCESS,
          ''Getting device''),
         (cl_err rt ''Creating context'', ''Creating context''),
         (cl_err rt ''Creating command queue'', ''Creating command queue''),
         (cl_err rt ''Creating program'', ''Creating program''),
         (cl_err rt ''Building program'', ''Building program''),
         (cl_err rt ''Creating kernel'', ''Creating kernel''),
         (cl_err rt ''Creating input buffer'', ''Creating input buffer''),
         (cl_err rt ''Creating output buffer'', ''Creating output buffer''),
         (cl_err rt ''Copying input to device'', ''Copying input to device''),
         (cl_err rt ''Setting kernel arguments'', ''Setting kernel arguments''),
         (clEnqueueNDRangeKernel rt global_work_size local_work_size, ''Executing kernel'')] of
        Some (operation, err) \<Rightarrow> Exited operation err
      | None \<Rightarrow>
          let D = store_buffer (device_memory rt) (d_input rt) (buffer H input_image image_size)
          in (case for_each (cl_schedule rt (nd_range (int (size_t width)) (int (size_t height))))
                     (\<lambda>gid D. box_blur_kernel_cl D (d_input rt) (d_output rt)
                                width height channels kernel_size gid) D of
                None \<Rightarrow> Trapped
              | Some D' \<Rightarrow>
                  (case check_error (cl_err rt ''Copying result to host'') ''Copying result to host'' of
                     Some (operation, err) \<Rightarrow> Exited operation err
                   | None \<Rightarrow>
                       Finished (store_buffer H output_image (buffer D' (d_output rt) output_size)))))"

subsection \<open>CUDA\<close>

definition accumulate_cuda ::
  "mem \<Rightarrow> addr \<Rightarrow> int \<Rightarrow> int \<Rightarrow> int \<Rightarrow> int \<Rightarrow> int \<Rightarrow> int \<Rightarrow> int \<Rightarrow> int \<times> int" where
  "accumulate_cuda M input width height channels halfKernelSize x y c =
     for_upto (- halfKernelSize) halfKernelSize (\<lambda>ky.
       for_upto (- halfKernelSize) halfKernelSize (\<lambda>kx (sum, count).
         let ix = int32 (x + kx); iy = int32 (y + ky) in
         if ix \<ge> 0 \<and> ix < width \<and> iy \<ge> 0 \<and> iy < height then
           let src_idx = int32 (int32 (int32 (int32 (iy * width) + ix) * channels) +
                                  (if channels = 1 then 0 else c))
           in (int32 (sum + uint (M (idx input src_idx))), int32 (count + 1))
         else (sum, count))) (0, 0)"

text \<open>
  The kernel \<open>box_blur_kernel\<close> of the CUDA source for the thread
  \<open>(blockIdx.x, blockIdx.y, threadIdx.x, threadIdx.y)\<close> of square blocks of edge
  \<open>blockDim\<close>.  The coordinates are computed in \<open>unsigned int\<close> and converted to \<open>int\<close>.
\<close>

definition box_blur_kernel_cuda ::
  "mem \<Rightarrow> addr \<Rightarrow> addr \<Rightarrow> int \<Rightarrow> int \<Rightarrow> int \<Rightarrow> int \<Rightarrow> int \<Rightarrow>
   int \<times> int \<times> int \<times> int \<Rightarrow> mem option" where
  "box_blur_kernel_cuda M input output width height channels kernelSize blockDim =
     (\<lambda>(blockIdx_x, blockIdx_y, threadIdx_x, threadIdx_y).
       let x = int32 (uint32 (blockIdx_x * blockDim + threadIdx_x));
           y = int32 (uint32 (blockIdx_y * blockDim + threadIdx_y)) in
       if x < width \<and> y < height then
         let halfKernelSize = kernelSize sdiv 2 in
         for_below 0 3 (\<lambda>c M.
           let (sum, count) = accumulate_cuda M input width height channels halfKernelSize x y c;
               dst_idx = int32 (int32 (int32 (int32 (y * width) + x) * 3) + c)
           in case c_div sum count of
                None \<Rightarrow> None
              | Some q \<Rightarrow> Some (M(idx output dst_idx := word_of_int q))) M
       else Some M)"

definition cuda_grid :: "int \<Rightarrow> int \<Rightarrow> int \<Rightarrow> (int \<times> int \<times> int \<times> int) list" where
  "cuda_grid gridSize_x gridSize_y blockDim =
     List.product [0..gridSize_x - 1]
       (List.product [0..gridSize_y - 1]
         (List.product [0..blockDim - 1] [0..blockDim - 1]))"

text \<open>
  What the CUDA runtime contributes: the status of each of its calls, none of which
  the source looks at, the device memory with the two buffers it allocates and the
  order \<open>cu_schedule\<close> in which it runs the threads of a grid.
\<close>

datatype cuda_call = Malloc_input | Malloc_output | Copy_to_device | Launch | Copy_to_host

record cuda_runtime =
  cu_err :: "cuda_call \<Rightarrow> int"
  cu_device_memory :: mem
  cu_d_input :: addr
  cu_d_output :: addr
  cu_schedule :: "(int \<times> int \<times> int \<times> int) list \<Rightarrow> (int \<times> int \<times> int \<times> int) list"

definition cudaSuccess :: int where
  "cudaSuccess = 0"

text \<open>
  One component of \<open>gridSize\<close>: the number of blocks that cover \<open>extent\<close>, computed in
  \<open>unsigned int\<close>.  A launch is refused when a block has more than 1024 threads or the
  grid more than \<open>2 ^ 31 - 1\<close> by 65535 blocks, or when a dimension is 0.
\<close>

definition gridSize :: "int \<Rightarrow> int \<Rightarrow> int" where
  "gridSize extent blockDim = uint32 (extent + blockDim - 1) div uint32 blockDim"

definition launch_accepted :: "int \<Rightarrow> int \<Rightarrow> int \<Rightarrow> bool" where
  "launch_accepted gridSize_x gridSize_y blockDim \<longleftrightarrow>
     0 < gridSize_x \<and> gridSize_x \<le> 2147483647 \<and> 0 < gridSize_y \<and> gridSize_y \<le> 65535 \<and>
     0 < blockDim \<and> blockDim * blockDim \<le> 1024"

text \<open>
  \<open>cuda_box_blur\<close>: allocate, copy in, launch, copy out.  The source checks no status,
  so a call that fails is passed over: without the device buffers every later call
  fails and the host memory stays as it is; a failed copy to the device or a refused
  launch leaves in the device buffers what was there before; a failed copy to the host
  leaves the host memory as it is.
\<close>

definition cuda_box_blur ::
  "cuda_runtime \<Rightarrow> mem \<Rightarrow> addr \<Rightarrow> addr \<Rightarrow> int \<Rightarrow> int \<Rightarrow> int \<Rightarrow> int \<Rightarrow> int \<Rightarrow> mem option" where
  "cuda_box_blur rt H h_input h_output width height channels kernelSize blockDim =
     (let inputSize = size_t (int32 (int32 (width * height) * channels));
          outputSize = size_t (int32 (int32 (width * height) * 3));
          gridSize_x = gridSize width blockDim;
          gridSize_y = gridSize height blockDim
      in if cu_err rt Malloc_input \<noteq> cudaSuccess \<or> cu_err rt Malloc_output \<noteq> cudaSuccess
           then Some H
         else
           let D = (if cu_err rt Copy_to_device = cudaSuccess
                    then store_buffer (cu_device_memory rt) (cu_d_input rt) (buffer H h_input inputSize)
                    else cu_device_memory rt)
           in case (if launch_accepted gridSize_x gridSize_y blockDim \<and> cu_err rt Launch = cudaSuccess
                    then for_each (cu_schedule rt (cuda_grid gridSize_x gridSize_y blockDim))
                           (\<lambda>t D. box_blur_kernel_cuda D (cu_d_input rt) (cu_d_output rt)
                                    width height channels kernelSize blockDim t) D
                    else Some D) of
                None \<Rightarrow> None
              | Some D' \<Rightarrow>
                  Some (if cu_err rt Copy_to_host = cudaSuccess
                        then store_buffer H h_output (buffer D' (cu_d_output rt) outputSize)
                        else H))"

section \<open>The specification of one output sample\<close>

text \<open>
  The in-bounds neighbours of \<open>(x, y)\<close>: the coordinates \<open>(x + n, y + m)\<close> with \<open>m\<close>
  and \<open>n\<close> between \<open>- radius\<close> and \<open>radius\<close> that lie inside the image.
\<close>

definition valid_neighbors :: "int \<Rightarrow> int \<Rightarrow> int \<Rightarrow> int \<Rightarrow> int \<Rightarrow> (int \<times> int) set" where
  "valid_neighbors width height radius x y =
     ({x - radius..x + radius} \<inter> {0..<width}) \<times> ({y - radius..y + radius} \<inter> {0..<height})"

text \<open>The input sample of channel \<open>c\<close> (of channel 0 for a single-channel image) at a coordinate.\<close>

definition input_sample :: "mem \<Rightarrow> addr \<Rightarrow> int \<Rightarrow> int \<Rightarrow> int \<Rightarrow> int \<times> int \<Rightarrow> int" where
  "input_sample M input width channels c =
     (\<lambda>(nx, ny). uint (M (idx input ((ny * width + nx) * channels + (if channels = 1 then 0 else c)))))"

text \<open>
  The same sample as the kernels read it, through the index \<open>src_idx\<close> that they
  compute in \<open>int\<close>.
\<close>

definition src_sample :: "mem \<Rightarrow> addr \<Rightarrow> int \<Rightarrow> int \<Rightarrow> int \<Rightarrow> int \<times> int \<Rightarrow> int" where
  "src_sample M input width channels c =
     (\<lambda>(nx, ny). uint (M (idx input
        (int32 (int32 (int32 (int32 (ny * width) + nx) * channels) +
                  (if channels = 1 then 0 else c))))))"

text \<open>The sum over the in-bounds neighbours divided, truncating, by their number.\<close>

definition window_average :: "mem \<Rightarrow> addr \<Rightarrow> int \<Rightarrow> int \<Rightarrow> int \<Rightarrow> int \<Rightarrow> int \<Rightarrow> int \<Rightarrow> int \<Rightarrow> int" where
  "window_average M input width height channels radius x y c =
     (\<Sum>p\<in>valid_neighbors width height radius x y. input_sample M input width channels c p)
       sdiv int (card (valid_neighbors width height radius x y))"

text \<open>
  The blurred image as the sequence of its \<open>width * height * 3\<close> bytes: byte \<open>d\<close> is
  channel \<open>d mod 3\<close> of the pixel \<open>d div 3\<close> in row-major order.
\<close>

definition blurred_at :: "mem \<Rightarrow> addr \<Rightarrow> int \<Rightarrow> int \<Rightarrow> int \<Rightarrow> int \<Rightarrow> nat \<Rightarrow> byte" where
  "blurred_at M input width height channels radius d =
     (let c = int d mod 3; p = int d div 3; x = p mod width; y = p div width
      in word_of_int (window_average M input width height channels radius x y c))"

definition blurred :: "mem \<Rightarrow> addr \<Rightarrow> int \<Rightarrow> int \<Rightarrow> int \<Rightarrow> int \<Rightarrow> byte list" where
  "blurred M input width height channels radius =
     map (blurred_at M input width height channels radius) [0..<nat (width * height * 3)]"

text \<open>
  What the 32-bit accumulation makes of these: the sum of the window wrapped into an
  \<open>int\<close> before the division.  The two agree when the radius is small enough for the
  sum (\<open>window_fits\<close> below).
\<close>

definition average32 :: "mem \<Rightarrow> addr \<Rightarrow> int \<Rightarrow> int \<Rightarrow> int \<Rightarrow> int \<Rightarrow> int \<Rightarrow> int \<Rightarrow> int \<Rightarrow> int" where
  "average32 M input width height channels radius x y c =
     int32 (\<Sum>p\<in>valid_neighbors width height radius x y. input_sample M input width channels c p)
       sdiv int (card (valid_neighbors width height radius x y))"

definition stored_at :: "mem \<Rightarrow> addr \<Rightarrow> int \<Rightarrow> int \<Rightarrow> int \<Rightarrow> int \<Rightarrow> nat \<Rightarrow> byte" where
  "stored_at M input width height channels radius d =
     (let c = int d mod 3; p = int d div 3; x = p mod width; y = p div width
      in word_of_int (average32 M input width height channels radius x y c))"

definition stored :: "mem \<Rightarrow> addr \<Rightarrow> int \<Rightarrow> int \<Rightarrow> int \<Rightarrow> int \<Rightarrow> byte list" where
  "stored M input width height channels radius =
     map (stored_at M input width height channels radius) [0..<nat (width * height * 3)]"

text \<open>
  Two images of the same shape that agree on the samples the blur uses: the first
  three channels of every pixel, or the only channel of a single-channel image.
\<close>

definition same_rgb :: "mem \<Rightarrow> addr \<Rightarrow> mem \<Rightarrow> addr \<Rightarrow> int \<Rightarrow> int \<Rightarrow> int \<Rightarrow> bool" where
  "same_rgb M input M' input' width height channels \<longleftrightarrow>
     (\<forall>p\<in>{0..<width * height}. \<forall>c\<in>{0..<min channels 3}.
        M (idx input (p * channels + c)) = M' (idx input' (p * channels + c)))"

text \<open>
  The effect of a run on the memory: \<open>M'\<close> is \<open>M\<close> except on the cells \<open>W\<close>,
  which hold the bytes \<open>v\<close>.
\<close>

definition writes :: "mem \<Rightarrow> mem \<Rightarrow> addr set \<Rightarrow> (addr \<Rightarrow> byte) \<Rightarrow> bool" where
  "writes M M' W v \<longleftrightarrow> (\<forall>a. a \<notin> W \<longrightarrow> M' a = M a) \<and> (\<forall>a\<in>W. M' a = v a)"

text \<open>
  The sizes that the sources compute in \<open>int\<close>: the number of bytes of the input,
  \<open>width * height * channels\<close>, and of the output, \<open>width * height * 3\<close>, are
  representable.  A radius is the half of a non-negative \<open>int\<close>; the window of a
  radius fits when 255 times its area, the largest sum of a window, is representable.
\<close>

definition representable :: "int \<Rightarrow> int \<Rightarrow> int \<Rightarrow> bool" where
  "representable width height channels \<longleftrightarrow>
     width * height * channels \<le> INT_MAX \<and> width * height * 3 \<le> INT_MAX"

definition is_radius :: "int \<Rightarrow> bool" where
  "is_radius k \<longleftrightarrow> 0 \<le> k \<and> k \<le> 1073741823"

definition window_fits :: "int \<Rightarrow> bool" where
  "window_fits k \<longleftrightarrow> 0 \<le> k \<and> 255 * ((2 * k + 1) * (2 * k + 1)) \<le> INT_MAX"

text \<open>
  An image of the given shape at \<open>input\<close> and an output buffer at \<open>output_rgb\<close> apart
  from it, of representable sizes.
\<close>

definition well_formed :: "addr \<Rightarrow> addr \<Rightarrow> int \<Rightarrow> int \<Rightarrow> int \<Rightarrow> bool" where
  "well_formed input output_rgb width height channels \<longleftrightarrow>
     0 < width \<and> 0 < height \<and> channels \<in> {1, 3, 4} \<and> representable width height channels \<and>
     separate input (nat (width * height * channels)) output_rgb (nat (width * height * 3))"

text \<open>
  The processes of a run: at least one, every pointer of lines 69 to 109 non-null, and
  in each process the copy of the image apart from the buffer \<open>my_output\<close> of
  \<open>width * my_rows * 3\<close> bytes (line 109); the sizes are representable.
\<close>

definition mpi_well_formed :: "process list \<Rightarrow> int \<Rightarrow> int \<Rightarrow> int \<Rightarrow> bool" where
  "mpi_well_formed procs width height channels \<longleftrightarrow>
     procs \<noteq> [] \<and> 0 < width \<and> 0 < height \<and> channels \<in> {1, 3, 4} \<and>
     representable width height channels \<and>
     (\<forall>rank\<in>set [0..<length procs].
        input_rgb (procs ! rank) \<noteq> None \<and> my_output (procs ! rank) \<noteq> None \<and>
        separate (the (input_rgb (procs ! rank))) (nat (width * height * channels))
          (the (my_output (procs ! rank)))
          (nat (width * my_rows height (int (length procs)) (int rank) * 3)))"


section \<open>The partition of the rows\<close>

lemma sdiv_nonneg_eq_div: "0 \<le> a \<Longrightarrow> 0 < b \<Longrightarrow> a sdiv b = a div (b::int)"
  by (simp add: signed_divide_int_def sgn_if)

lemma rows_per_process_div:
  "0 \<le> height \<Longrightarrow> 1 \<le> nproc \<Longrightarrow> rows_per_process height nproc = height div nproc"
  by (simp add: rows_per_process_def sdiv_nonneg_eq_div)

lemma rows_per_process_bounds:
  assumes "0 \<le> height" "1 \<le> nproc"
  shows "0 \<le> rows_per_process height nproc"
    and "nproc * rows_per_process height nproc \<le> height"
proof -
  have q: "rows_per_process height nproc = height div nproc"
    using assms by (rule rows_per_process_div)
  show "0 \<le> rows_per_process height nproc"
    using assms by (simp add: q pos_imp_zdiv_nonneg_iff)
  have "nproc * (height div nproc) + height mod nproc = height" by simp
  moreover have "0 \<le> height mod nproc" using assms by simp
  ultimately show "nproc * rows_per_process height nproc \<le> height"
    unfolding q by linarith
qed

lemma start_row_mono:
  assumes "0 \<le> height" "1 \<le> nproc" "i \<le> j"
  shows "start_row height nproc i \<le> start_row height nproc j"
  using assms rows_per_process_bounds(1) [of height nproc]
  by (simp add: start_row_def mult_right_mono)

lemma start_row_le_height:
  assumes "0 \<le> height" "1 \<le> nproc" "i < nproc"
  shows "start_row height nproc i + rows_per_process height nproc \<le> height"
proof -
  have "(i + 1) * rows_per_process height nproc \<le> nproc * rows_per_process height nproc"
    using assms rows_per_process_bounds(1) [of height nproc] by (intro mult_right_mono) auto
  also have "\<dots> \<le> height" using assms by (intro rows_per_process_bounds)
  finally show ?thesis by (simp add: start_row_def algebra_simps)
qed

lemma end_row_eq_next:
  "i \<noteq> nproc - 1 \<Longrightarrow> end_row height nproc i = start_row height nproc (i + 1)"
  by (simp add: end_row_def start_row_def algebra_simps)

lemma start_le_end_row:
  assumes "0 \<le> height" "1 \<le> nproc" "i < nproc"
  shows "start_row height nproc i \<le> end_row height nproc i"
  using assms start_row_le_height [of height nproc i] rows_per_process_bounds(1) [of height nproc]
  by (auto simp: end_row_def)

lemma end_row_le_height:
  assumes "0 \<le> height" "1 \<le> nproc" "i < nproc"
  shows "end_row height nproc i \<le> height"
  using assms start_row_le_height [of height nproc i]
  by (auto simp: end_row_def)

lemma end_le_start_row:
  assumes "0 \<le> height" "1 \<le> nproc" "i < j" "j < nproc"
  shows "end_row height nproc i \<le> start_row height nproc j"
proof -
  have "end_row height nproc i = start_row height nproc (i + 1)"
    using assms by (intro end_row_eq_next) auto
  also have "\<dots> \<le> start_row height nproc j"
    using assms by (intro start_row_mono) auto
  finally show ?thesis .
qed

lemma row_has_owner:
  assumes h: "0 \<le> height" and n: "1 \<le> nproc" and r: "0 \<le> r" "r < height"
  shows "\<exists>i. 0 \<le> i \<and> i < nproc \<and> start_row height nproc i \<le> r \<and> r < end_row height nproc i"
proof (cases "r < (nproc - 1) * rows_per_process height nproc")
  case True
  define q where "q = rows_per_process height nproc"
  have q0: "0 \<le> q" unfolding q_def using h n by (rule rows_per_process_bounds)
  with True r have qpos: "0 < q"
    unfolding q_def [symmetric] by (cases "q = 0") auto
  define i where "i = r div q"
  have i0: "0 \<le> i" using r qpos by (simp add: i_def pos_imp_zdiv_nonneg_iff)
  have e: "q * (r div q) + r mod q = r" by simp
  have m: "0 \<le> r mod q" "r mod q < q" using qpos by simp_all
  have lo: "i * q \<le> r"
  proof -
    from e m have "q * (r div q) \<le> r" by linarith
    then show ?thesis by (simp add: i_def mult.commute)
  qed
  have hi: "r < (i + 1) * q"
  proof -
    from e m have "r < q * (r div q) + q" by linarith
    then show ?thesis by (simp add: i_def algebra_simps)
  qed
  have "i < nproc - 1"
  proof (rule ccontr)
    assume "\<not> i < nproc - 1"
    then have "(nproc - 1) * q \<le> i * q" using q0 by (intro mult_right_mono) auto
    with lo True show False unfolding q_def by linarith
  qed
  then have "end_row height nproc i = (i + 1) * q"
    by (simp add: end_row_def start_row_def q_def algebra_simps)
  with lo hi i0 \<open>i < nproc - 1\<close> show ?thesis
    by (intro exI [of _ i]) (simp add: start_row_def q_def)
next
  case False
  then show ?thesis using n r
    by (intro exI [of _ "nproc - 1"]) (simp add: start_row_def end_row_def)
qed

text \<open>
  Claim C3.  For every height of at least 1 and every number of workers of at least 1,
  the row ranges of the partition formula are ordered, contiguous and pairwise disjoint,
  their union is exactly the rows 0 to height - 1, every worker but the last receives
  exactly \<open>height div nproc\<close> rows (the floor of the quotient), and the last one
  receives that many rows plus the remainder.
\<close>

theorem partition_tiling:
  assumes "1 \<le> height" and "1 \<le> nproc"
  shows "start_row height nproc 0 = 0 \<and>
         end_row height nproc (nproc - 1) = height \<and>
         (\<forall>i. 0 \<le> i \<and> i < nproc \<longrightarrow>
            start_row height nproc i \<le> end_row height nproc i) \<and>
         (\<forall>i. 0 \<le> i \<and> i < nproc - 1 \<longrightarrow>
            end_row height nproc i = start_row height nproc (i + 1)) \<and>
         (\<forall>i j. 0 \<le> i \<and> i < j \<and> j < nproc \<longrightarrow>
            end_row height nproc i \<le> start_row height nproc j \<and>
            {start_row height nproc i..<end_row height nproc i} \<inter>
            {start_row height nproc j..<end_row height nproc j} = {}) \<and>
         (\<Union>i\<in>{0..<nproc}. {start_row height nproc i..<end_row height nproc i}) = {0..<height} \<and>
         (\<forall>i. 0 \<le> i \<and> i < nproc - 1 \<longrightarrow> my_rows height nproc i = height div nproc) \<and>
         my_rows height nproc (nproc - 1) = height div nproc + height mod nproc"
proof -
  have h: "0 \<le> height" using assms by simp
  note n = assms(2)
  have 1: "start_row height nproc 0 = 0" by (simp add: start_row_def)
  have 2: "end_row height nproc (nproc - 1) = height" by (simp add: end_row_def)
  have 3: "\<forall>i. 0 \<le> i \<and> i < nproc \<longrightarrow> start_row height nproc i \<le> end_row height nproc i"
    using start_le_end_row [OF h n] by blast
  have 4: "\<forall>i. 0 \<le> i \<and> i < nproc - 1 \<longrightarrow>
             end_row height nproc i = start_row height nproc (i + 1)"
    by (simp add: end_row_eq_next)
  have 5: "\<forall>i j. 0 \<le> i \<and> i < j \<and> j < nproc \<longrightarrow>
           end_row height nproc i \<le> start_row height nproc j \<and>
           {start_row height nproc i..<end_row height nproc i} \<inter>
           {start_row height nproc j..<end_row height nproc j} = {}"
    using end_le_start_row [OF h n] by fastforce
  have 6: "(\<Union>i\<in>{0..<nproc}. {start_row height nproc i..<end_row height nproc i}) = {0..<height}"
  proof (intro equalityI subsetI)
    fix r assume "r \<in> (\<Union>i\<in>{0..<nproc}. {start_row height nproc i..<end_row height nproc i})"
    then obtain i where i: "0 \<le> i" "i < nproc"
      and r: "start_row height nproc i \<le> r" "r < end_row height nproc i" by auto
    have "0 \<le> start_row height nproc i"
      using start_row_mono [OF h n, of 0 i] i by (simp add: start_row_def)
    moreover have "end_row height nproc i \<le> height"
      using end_row_le_height [OF h n] i by blast
    ultimately show "r \<in> {0..<height}" using r by simp
  next
    fix r assume "r \<in> {0..<height}"
    then have "0 \<le> r" "r < height" by simp_all
    from row_has_owner [OF h n this] show
      "r \<in> (\<Union>i\<in>{0..<nproc}. {start_row height nproc i..<end_row height nproc i})"
      by auto
  qed
  have 7: "\<forall>i. 0 \<le> i \<and> i < nproc - 1 \<longrightarrow> my_rows height nproc i = height div nproc"
    using h n by (simp add: my_rows_def end_row_def rows_per_process_div)
  have 8: "my_rows height nproc (nproc - 1) = height div nproc + height mod nproc"
  proof -
    have "nproc * (height div nproc) + height mod nproc = height" by simp
    then show ?thesis
      using h n by (simp add: my_rows_def end_row_def start_row_def rows_per_process_div algebra_simps)
  qed
  from 1 2 3 4 5 6 7 8 show ?thesis by blast
qed

theorem partition_tiling_witness:
  "(1::int) \<le> 10 \<and> (1::int) \<le> 4 \<and>
   (\<Union>i\<in>{0..<4}. {start_row 10 4 i..<end_row 10 4 i}) = {0..<10} \<and>
   my_rows 10 4 3 = 10 div 4 + 10 mod 4 \<and> my_rows 10 4 3 = 4 \<and> my_rows 10 4 0 = 2"
  using partition_tiling [of 10 4]
  by (simp add: my_rows_def end_row_def start_row_def rows_per_process_def signed_divide_int_def)


section \<open>Arithmetic in 32 bits\<close>

lemma int32_signed_take_bit: "int32 n = signed_take_bit 31 n"
  unfolding int32_def signed_take_bit_eq_take_bit_shift take_bit_eq_mod by simp

lemma int32_id: "- 2147483648 \<le> n \<Longrightarrow> n \<le> INT_MAX \<Longrightarrow> int32 n = n"
  unfolding int32_signed_take_bit INT_MAX_def
  by (rule signed_take_bit_int_eq_self) simp_all

lemma int32_nonneg_id: "0 \<le> n \<Longrightarrow> n \<le> INT_MAX \<Longrightarrow> int32 n = n"
  by (rule int32_id) simp_all

lemma int32_above:
  assumes "INT_MAX < n" "n < 4294967296"
  shows "int32 n = n - 4294967296"
proof -
  define m where "m = n - 2147483648"
  have m: "0 \<le> m" "m < 4294967296" using assms by (simp_all add: m_def INT_MAX_def)
  have "(m + 4294967296) mod 4294967296 = m mod 4294967296"
    by (rule mod_add_self2)
  also have "\<dots> = m" using m by (rule mod_pos_pos_trivial)
  finally have "(m + 4294967296) mod 4294967296 = m" .
  moreover have "n + 2147483648 = m + 4294967296" by (simp add: m_def)
  ultimately have "(n + 2147483648) mod 4294967296 = m" by (simp only:)
  then show ?thesis unfolding int32_def by (simp add: m_def)
qed

lemma int32_add_left [simp]: "int32 (int32 a + b) = int32 (a + b)"
  using signed_take_bit_add [of 31 "signed_take_bit 31 a" b] signed_take_bit_add [of 31 a b]
  by (simp add: int32_signed_take_bit)

lemma int32_add_right [simp]: "int32 (a + int32 b) = int32 (a + b)"
  using int32_add_left [of b a] by (simp add: add.commute)

lemma int32_mult_left [simp]: "int32 (int32 a * b) = int32 (a * b)"
  using signed_take_bit_mult [of 31 "signed_take_bit 31 a" b] signed_take_bit_mult [of 31 a b]
  by (simp add: int32_signed_take_bit)

lemma int32_mult_right [simp]: "int32 (a * int32 b) = int32 (a * b)"
  using int32_mult_left [of b a] by (simp add: mult.commute)

lemma int32_uint32 [simp]: "int32 (uint32 n) = int32 n"
  by (simp add: int32_def uint32_def mod_add_left_eq)

lemma size_t_id: "0 \<le> n \<Longrightarrow> n \<le> INT_MAX \<Longrightarrow> size_t n = nat n"
  by (simp add: size_t_def INT_MAX_def)

text \<open>
  The in-bounds test of the kernels on a wrapped coordinate is the test on the exact
  one: a sum that wraps is too large to be inside the image.
\<close>

lemma wrapped_coordinate:
  assumes "0 \<le> x" "x \<le> INT_MAX" "- 1073741823 \<le> n" "n \<le> 1073741823" "W \<le> INT_MAX"
  shows "0 \<le> int32 (x + n) \<and> int32 (x + n) < W \<longleftrightarrow> 0 \<le> x + n \<and> x + n < W"
    and "0 \<le> x + n \<and> x + n < W \<Longrightarrow> int32 (x + n) = x + n"
proof -
  show "0 \<le> int32 (x + n) \<and> int32 (x + n) < W \<longleftrightarrow> 0 \<le> x + n \<and> x + n < W"
  proof (cases "x + n \<le> INT_MAX")
    case True
    then have "int32 (x + n) = x + n"
      using assms by (intro int32_id) simp_all
    then show ?thesis by simp
  next
    case False
    then have "int32 (x + n) = x + n - 4294967296"
      using assms by (intro int32_above) (simp_all add: INT_MAX_def)
    with False assms show ?thesis by (simp add: INT_MAX_def)
  qed
  show "int32 (x + n) = x + n" if "0 \<le> x + n \<and> x + n < W"
    using that assms by (intro int32_id) simp_all
qed

lemma index_in_bounds:
  fixes a b A B :: int
  assumes "0 \<le> a" "a < A" "0 \<le> b" "b < B"
  shows "0 \<le> a * B + b" and "a * B + b < A * B"
proof -
  show "0 \<le> a * B + b" using assms by simp
  have "a * B + b < (a + 1) * B" using assms by (simp add: algebra_simps)
  also have "\<dots> \<le> A * B" using assms by (intro mult_right_mono) auto
  finally show "a * B + b < A * B" .
qed

text \<open>The two indices of the kernels do not wrap when the sizes are representable.\<close>

lemma src_idx_exact:
  assumes "0 \<le> nx" "nx < width" "0 \<le> ny" "ny < height" "0 \<le> t" "t < channels"
    and "width * height * channels \<le> INT_MAX"
  shows "int32 (int32 (int32 (int32 (ny * width) + nx) * channels) + t) =
         (ny * width + nx) * channels + t"
proof -
  have p: "0 \<le> ny * width + nx" "ny * width + nx < height * width"
    using index_in_bounds [OF assms(3,4,1,2)] by simp_all
  from index_in_bounds [OF p assms(5,6)]
  have "0 \<le> (ny * width + nx) * channels + t"
    "(ny * width + nx) * channels + t < width * height * channels"
    by (simp_all add: mult.commute)
  with assms(7) have "int32 ((ny * width + nx) * channels + t) = (ny * width + nx) * channels + t"
    by (intro int32_nonneg_id) simp_all
  then show ?thesis by simp
qed

lemma dst_in_bounds:
  fixes x y c width height :: int
  assumes "0 \<le> x" "x < width" "0 \<le> y" "y < height" "0 \<le> c" "c < 3"
  shows "0 \<le> (y * width + x) * 3 + c" and "(y * width + x) * 3 + c < width * height * 3"
proof -
  have p: "0 \<le> y * width + x" "y * width + x < height * width"
    using index_in_bounds [OF assms(3,4,1,2)] by simp_all
  from index_in_bounds [OF p assms(5,6)]
  show "0 \<le> (y * width + x) * 3 + c" and "(y * width + x) * 3 + c < width * height * 3"
    by (simp_all add: mult.commute)
qed

lemma dst_idx_wrapped:
  "int32 (int32 (int32 (int32 (y * width) + x) * 3) + c) = int32 ((y * width + x) * 3 + c)"
  by simp

lemma dst_idx_exact:
  assumes "0 \<le> x" "x < width" "0 \<le> y" "y < height" "0 \<le> c" "c < 3"
    and "width * height * 3 \<le> INT_MAX"
  shows "int32 (int32 (int32 (int32 (y * width) + x) * 3) + c) = (y * width + x) * 3 + c"
proof -
  from dst_in_bounds [OF assms(1-6)] assms(7)
  have "int32 ((y * width + x) * 3 + c) = (y * width + x) * 3 + c"
    by (intro int32_nonneg_id) simp_all
  then show ?thesis by simp
qed


section \<open>The loops and the window accumulation\<close>

lemma for_upto_fold: "for_upto i hi body s = fold body [i..hi] s"
proof (induction i hi body s rule: for_upto.induct)
  case (1 i hi body s)
  show ?case
  proof (cases "i \<le> hi")
    case True
    with 1 show ?thesis by (subst for_upto.simps) (simp add: upto_rec1)
  next
    case False
    then show ?thesis by (subst for_upto.simps) simp
  qed
qed

lemma for_below_for_each: "for_below i hi body s = for_each [i..hi - 1] body s"
proof (induction i hi body s rule: for_below.induct)
  case (1 i hi body s)
  show ?case
  proof (cases "i < hi")
    case True
    then have "[i..hi - 1] = i # [i + 1..hi - 1]" by (simp add: upto_rec1)
    with True 1 show ?thesis
      by (subst for_below.simps) (simp split: option.splits)
  next
    case False
    then show ?thesis by (subst for_below.simps) simp
  qed
qed


lemma int32_zero [simp]: "int32 0 = 0"
  by (simp add: int32_def)

lemma fold_accumulate32:
  "fold (\<lambda>n (s, c). if P n then (int32 (s + f n), int32 (c + 1)) else (s, c)) ns (int32 s0, int32 c0) =
     (int32 (s0 + (\<Sum>n\<leftarrow>ns. if P n then f n else 0)),
      int32 (c0 + (\<Sum>n\<leftarrow>ns. if P n then 1 else (0::int))))"
  for f :: "'a \<Rightarrow> int"
proof (induction ns arbitrary: s0 c0)
  case Nil
  show ?case by simp
next
  case (Cons n ns)
  show ?case
  proof (cases "P n")
    case True
    with Cons [of "s0 + f n" "c0 + 1"] show ?thesis by (simp add: add.assoc)
  next
    case False
    with Cons [of s0 c0] show ?thesis by simp
  qed
qed

lemma fold_fold_accumulate32:
  "fold (\<lambda>m. fold (\<lambda>n (s, c). if P m n then (int32 (s + f m n), int32 (c + 1)) else (s, c)) ns) ms
       (int32 s0, int32 c0) =
     (int32 (s0 + (\<Sum>m\<leftarrow>ms. \<Sum>n\<leftarrow>ns. if P m n then f m n else 0)),
      int32 (c0 + (\<Sum>m\<leftarrow>ms. \<Sum>n\<leftarrow>ns. if P m n then 1 else (0::int))))"
  for f :: "'a \<Rightarrow> 'b \<Rightarrow> int"
proof (induction ms arbitrary: s0 c0)
  case Nil
  show ?case by simp
next
  case (Cons m ms)
  show ?case
    by (simp add: fold_accumulate32 Cons add.assoc)
qed

lemma sum_list_upto: "(\<Sum>n\<leftarrow>[i..j]. f n) = (\<Sum>n\<in>{i..j}. f n)" for f :: "int \<Rightarrow> int"
  using sum_set_upto_conv_sum_list_int [of f i j] by simp

lemma sum_window:
  fixes F :: "int \<times> int \<Rightarrow> int"
  shows "(\<Sum>m\<in>{- k..k}. \<Sum>n\<in>{- k..k}.
            if x + n \<ge> 0 \<and> x + n < width \<and> y + m \<ge> 0 \<and> y + m < height
            then F (x + n, y + m) else 0) =
         (\<Sum>p\<in>valid_neighbors width height k x y. F p)"
proof -
  let ?A = "{x - k..x + k}" and ?B = "{y - k..y + k}"
  let ?C = "{0..<width}" and ?D = "{0..<height}"
  have shift: "(\<Sum>n\<in>{- k..k}. G (z + n)) = (\<Sum>i\<in>{z - k..z + k}. G i)" for G :: "int \<Rightarrow> int" and z
    by (rule sum.reindex_bij_witness [of _ "\<lambda>i. i - z" "\<lambda>n. z + n"]) auto
  have restrict: "(\<Sum>i\<in>S. if 0 \<le> i \<and> i < b then G i else 0) = sum G (S \<inter> {0..<b})"
    if "finite S" for G :: "int \<Rightarrow> int" and S b
    using that by (simp add: sum.inter_restrict)
  define H where "H j i = (if 0 \<le> i \<and> i < width \<and> 0 \<le> j \<and> j < height then F (i, j) else 0)" for i j
  have "(\<Sum>m\<in>{- k..k}. \<Sum>n\<in>{- k..k}.
            if x + n \<ge> 0 \<and> x + n < width \<and> y + m \<ge> 0 \<and> y + m < height
            then F (x + n, y + m) else 0) = (\<Sum>m\<in>{- k..k}. \<Sum>n\<in>{- k..k}. H (y + m) (x + n))"
    by (simp add: H_def)
  also have "\<dots> = (\<Sum>m\<in>{- k..k}. \<Sum>i\<in>?A. H (y + m) i)"
    by (simp only: shift [of "H _" x])
  also have "\<dots> = (\<Sum>j\<in>?B. \<Sum>i\<in>?A. H j i)"
    by (rule shift [of "\<lambda>j. \<Sum>i\<in>?A. H j i" y])
  also have "\<dots> = (\<Sum>j\<in>?B. if 0 \<le> j \<and> j < height
                        then (\<Sum>i\<in>?A. if 0 \<le> i \<and> i < width then F (i, j) else 0) else 0)"
    by (intro sum.cong refl) (auto simp: H_def)
  also have "\<dots> = (\<Sum>j\<in>?B \<inter> ?D. \<Sum>i\<in>?A. if 0 \<le> i \<and> i < width then F (i, j) else 0)"
    by (rule restrict) simp
  also have "\<dots> = (\<Sum>j\<in>?B \<inter> ?D. \<Sum>i\<in>?A \<inter> ?C. F (i, j))"
    by (intro sum.cong refl restrict) simp
  also have "\<dots> = (\<Sum>i\<in>?A \<inter> ?C. \<Sum>j\<in>?B \<inter> ?D. F (i, j))"
    by (rule sum.swap)
  also have "\<dots> = (\<Sum>p\<in>(?A \<inter> ?C) \<times> (?B \<inter> ?D). F p)"
    by (simp add: sum.cartesian_product)
  finally show ?thesis by (simp add: valid_neighbors_def)
qed

lemma count_window:
  "(\<Sum>m\<in>{- k..k}. \<Sum>n\<in>{- k..k}.
      if x + n \<ge> 0 \<and> x + n < width \<and> y + m \<ge> 0 \<and> y + m < height then 1 else 0) =
   int (card (valid_neighbors width height k x y))"
  using sum_window [where F = "\<lambda>p. 1"] by simp


text \<open>
  The accumulation of every kernel: the wrapped sum of the samples it reads over the
  in-bounds neighbours, and their wrapped number.
\<close>

lemma accumulate_color_sum:
  assumes x: "0 \<le> x" "x \<le> INT_MAX" and y: "0 \<le> y" "y \<le> INT_MAX" and k: "is_radius k"
    and w: "width \<le> INT_MAX" and h: "height \<le> INT_MAX"
  shows "accumulate_color M input width height channels k x y c =
     (int32 (\<Sum>p\<in>valid_neighbors width height k x y. src_sample M input width channels c p),
      int32 (int (card (valid_neighbors width height k x y))))"
proof -
  let ?P = "\<lambda>m n. x + n \<ge> 0 \<and> x + n < width \<and> y + m \<ge> 0 \<and> y + m < height"
  let ?f = "\<lambda>m n. src_sample M input width channels c (x + n, y + m)"
  have inner: "(\<lambda>(sum, count).
         let nx = int32 (x + n); ny = int32 (y + m) in
         if nx \<ge> 0 \<and> nx < width \<and> ny \<ge> 0 \<and> ny < height then
           let src_idx = int32 (int32 (int32 (int32 (ny * width) + nx) * channels) +
                                  (if channels = 1 then 0 else c))
           in (int32 (sum + uint (M (idx input src_idx))), int32 (count + 1))
         else (sum, count)) =
       (\<lambda>(s, c'). if ?P m n then (int32 (s + ?f m n), int32 (c' + 1)) else (s, c'))"
    if m: "m \<in> set [- k..k]" and n: "n \<in> set [- k..k]" for m n
  proof -
    from n k have nb: "- 1073741823 \<le> n" "n \<le> 1073741823" by (simp_all add: is_radius_def)
    from m k have mb: "- 1073741823 \<le> m" "m \<le> 1073741823" by (simp_all add: is_radius_def)
    note cx = wrapped_coordinate [OF x nb w] and cy = wrapped_coordinate [OF y mb h]
    show ?thesis
    proof (cases "?P m n")
      case True
      then have "int32 (x + n) = x + n" "int32 (y + m) = y + m"
        using cx(2) cy(2) by simp_all
      with True show ?thesis
        by (simp add: src_sample_def Let_def fun_eq_iff)
    next
      case False
      then have "\<not> (int32 (x + n) \<ge> 0 \<and> int32 (x + n) < width \<and>
                    int32 (y + m) \<ge> 0 \<and> int32 (y + m) < height)"
        using cx(1) cy(1) by blast
      then show ?thesis
        unfolding Let_def by (simp only: False if_False)
    qed
  qed
  have row: "fold (\<lambda>n (sum, count).
         let nx = int32 (x + n); ny = int32 (y + m) in
         if nx \<ge> 0 \<and> nx < width \<and> ny \<ge> 0 \<and> ny < height then
           let src_idx = int32 (int32 (int32 (int32 (ny * width) + nx) * channels) +
                                  (if channels = 1 then 0 else c))
           in (int32 (sum + uint (M (idx input src_idx))), int32 (count + 1))
         else (sum, count)) [- k..k] =
       fold (\<lambda>n (s, c'). if ?P m n then (int32 (s + ?f m n), int32 (c' + 1)) else (s, c')) [- k..k]"
    if m: "m \<in> set [- k..k]" for m
    by (intro ext fold_cong refl inner [OF m])
  have "accumulate_color M input width height channels k x y c =
      fold (\<lambda>m. fold (\<lambda>n (s, c'). if ?P m n then (int32 (s + ?f m n), int32 (c' + 1)) else (s, c'))
              [- k..k]) [- k..k] (int32 0, int32 0)"
    unfolding accumulate_color_def for_upto_fold int32_zero
    by (intro fold_cong refl row)
  also have "\<dots> =
     (int32 (\<Sum>m\<in>{- k..k}. \<Sum>n\<in>{- k..k}.
            if x + n \<ge> 0 \<and> x + n < width \<and> y + m \<ge> 0 \<and> y + m < height
            then src_sample M input width channels c (x + n, y + m) else 0),
      int32 (\<Sum>m\<in>{- k..k}. \<Sum>n\<in>{- k..k}.
            if x + n \<ge> 0 \<and> x + n < width \<and> y + m \<ge> 0 \<and> y + m < height
            then 1 else 0))"
    by (simp only: fold_fold_accumulate32 sum_list_upto add_0)
  finally show ?thesis
    by (simp only: sum_window count_window)
qed


section \<open>The window average\<close>

lemma finite_valid_neighbors [simp]: "finite (valid_neighbors width height k x y)"
  by (simp add: valid_neighbors_def)

lemma valid_neighbors_iff:
  "(nx, ny) \<in> valid_neighbors width height k x y \<longleftrightarrow>
     x - k \<le> nx \<and> nx \<le> x + k \<and> 0 \<le> nx \<and> nx < width \<and>
     y - k \<le> ny \<and> ny \<le> y + k \<and> 0 \<le> ny \<and> ny < height"
  by (auto simp: valid_neighbors_def)

lemma card_valid_neighbors_pos:
  assumes "0 \<le> x" "x < width" "0 \<le> y" "y < height" "0 \<le> k"
  shows "0 < card (valid_neighbors width height k x y)"
proof -
  have "(x, y) \<in> valid_neighbors width height k x y"
    using assms by (simp add: valid_neighbors_iff)
  then show ?thesis
    by (auto simp: card_gt_0_iff)
qed

lemma input_sample_range:
  "0 \<le> input_sample M input width channels c p" "input_sample M input width channels c p \<le> 255"
proof -
  obtain nx ny where p: "p = (nx, ny)" by (cases p)
  show "0 \<le> input_sample M input width channels c p" by (simp add: p input_sample_def)
  have "uint w \<le> 255" for w :: byte
    using uint_bounded [of w] by simp
  then show "input_sample M input width channels c p \<le> 255" by (simp add: p input_sample_def)
qed

lemma window_sum_range:
  "0 \<le> (\<Sum>p\<in>valid_neighbors width height k x y. input_sample M input width channels c p)"
  "(\<Sum>p\<in>valid_neighbors width height k x y. input_sample M input width channels c p)
     \<le> 255 * int (card (valid_neighbors width height k x y))"
proof -
  show "0 \<le> (\<Sum>p\<in>valid_neighbors width height k x y. input_sample M input width channels c p)"
    by (intro sum_nonneg input_sample_range)
  have "(\<Sum>p\<in>valid_neighbors width height k x y. input_sample M input width channels c p)
          \<le> (\<Sum>p\<in>valid_neighbors width height k x y. 255)"
    by (intro sum_mono input_sample_range)
  then show "(\<Sum>p\<in>valid_neighbors width height k x y. input_sample M input width channels c p)
     \<le> 255 * int (card (valid_neighbors width height k x y))"
    by simp
qed

lemma truncated_average_range:
  fixes s n :: int
  assumes "0 \<le> s" "s \<le> 255 * n" "0 < n"
  shows "s sdiv n = s div n" "0 \<le> s sdiv n" "s sdiv n \<le> 255"
proof -
  show e: "s sdiv n = s div n" using assms by (simp add: sdiv_nonneg_eq_div)
  show "0 \<le> s sdiv n" using assms by (simp add: e pos_imp_zdiv_nonneg_iff)
  have "s div n \<le> (255 * n) div n" using assms by (intro zdiv_mono1) auto
  then show "s sdiv n \<le> 255" using assms by (simp add: e)
qed

lemma window_average_range:
  assumes "0 \<le> x" "x < width" "0 \<le> y" "y < height" "0 \<le> k"
  shows "0 \<le> window_average M input width height channels k x y c"
    and "window_average M input width height channels k x y c \<le> 255"
    and "uint (word_of_int (window_average M input width height channels k x y c) :: byte) =
           window_average M input width height channels k x y c"
proof -
  have n: "0 < int (card (valid_neighbors width height k x y))"
    using card_valid_neighbors_pos [OF assms] by simp
  note r = truncated_average_range [OF window_sum_range n]
  show lo: "0 \<le> window_average M input width height channels k x y c"
    unfolding window_average_def by (rule r)
  show hi: "window_average M input width height channels k x y c \<le> 255"
    unfolding window_average_def by (rule r)
  from lo hi show "uint (word_of_int (window_average M input width height channels k x y c) :: byte) =
           window_average M input width height channels k x y c"
    by (simp add: uint_word_of_int take_bit_int_eq_self)
qed

lemma same_rgb_input_sample:
  assumes s: "same_rgb M input M' input' width height channels"
    and p: "p \<in> valid_neighbors width height k x y"
    and c: "0 \<le> c" "c < 3" and ch: "channels = 1 \<or> 3 \<le> channels"
  shows "input_sample M input width channels c p = input_sample M' input' width channels c p"
proof -
  obtain nx ny where pq: "p = (nx, ny)" by (cases p)
  with p have b: "0 \<le> nx" "nx < width" "0 \<le> ny" "ny < height"
    by (simp_all add: valid_neighbors_iff)
  have "0 \<le> ny * width + nx" "ny * width + nx < height * width"
    using index_in_bounds [OF b(3,4) b(1,2)] by simp_all
  then have i: "ny * width + nx \<in> {0..<width * height}" by (simp add: mult.commute)
  have "(if channels = 1 then 0 else c) \<in> {0..<min channels 3}"
    using c ch by auto
  with s i show ?thesis
    unfolding same_rgb_def pq input_sample_def by simp
qed

lemma same_rgb_window_average:
  assumes "same_rgb M input M' input' width height channels"
    and "0 \<le> c" "c < 3" and "channels = 1 \<or> 3 \<le> channels"
  shows "window_average M input width height channels k x y c =
         window_average M' input' width height channels k x y c"
  unfolding window_average_def
  using same_rgb_input_sample [OF assms(1) _ assms(2-4)]
  by (simp cong: sum.cong)

lemma same_rgb_average32:
  assumes "same_rgb M input M' input' width height channels"
    and "0 \<le> c" "c < 3" and "channels = 1 \<or> 3 \<le> channels"
  shows "average32 M input width height channels k x y c =
         average32 M' input' width height channels k x y c"
  unfolding average32_def
  using same_rgb_input_sample [OF assms(1) _ assms(2-4)]
  by (simp cong: sum.cong)

section \<open>The range of the values\<close>

text \<open>
  The number of in-bounds neighbours is at most the area of the window and at most
  the area of the image; their sum is at most 255 times their number.
\<close>

lemma card_valid_neighbors_le:
  assumes "0 \<le> k"
  shows "int (card (valid_neighbors width height k x y)) \<le> (2 * k + 1) * (2 * k + 1)"
proof -
  have a: "card ({z - k..z + k} \<inter> S) \<le> nat (2 * k + 1)" for z and S :: "int set"
  proof -
    have "card ({z - k..z + k} \<inter> S) \<le> card {z - k..z + k}"
      by (intro card_mono) auto
    also have "\<dots> = nat (2 * k + 1)" by simp
    finally show ?thesis .
  qed
  have "card (valid_neighbors width height k x y) \<le> nat (2 * k + 1) * nat (2 * k + 1)"
    unfolding valid_neighbors_def card_cartesian_product
    by (intro mult_le_mono a)
  then have "int (card (valid_neighbors width height k x y)) \<le> int (nat (2 * k + 1) * nat (2 * k + 1))"
    by (simp only: of_nat_le_iff)
  then show ?thesis using assms by simp
qed

lemma card_valid_neighbors_le_area:
  assumes "0 \<le> width" "0 \<le> height"
  shows "int (card (valid_neighbors width height k x y)) \<le> width * height"
proof -
  have a: "card (S \<inter> {0..<b}) \<le> nat b" for b and S :: "int set"
  proof -
    have "card (S \<inter> {0..<b}) \<le> card {0..<b}"
      by (intro card_mono) auto
    then show ?thesis by simp
  qed
  have "card (valid_neighbors width height k x y) \<le> nat width * nat height"
    unfolding valid_neighbors_def card_cartesian_product
    by (intro mult_le_mono a)
  then have "int (card (valid_neighbors width height k x y)) \<le> int (nat width * nat height)"
    by (simp only: of_nat_le_iff)
  then show ?thesis using assms by simp
qed

lemma window_fits_radius:
  assumes "window_fits k"
  shows "is_radius k"
proof -
  from assms have k: "0 \<le> k" and b: "255 * ((2 * k + 1) * (2 * k + 1)) \<le> 2147483647"
    by (simp_all add: window_fits_def INT_MAX_def)
  define q where "q = (2 * k + 1) * (2 * k + 1)"
  have "1 * (2 * k + 1) \<le> (2 * k + 1) * (2 * k + 1)"
    using k by (intro mult_right_mono) auto
  then have "2 * k + 1 \<le> q" by (simp add: q_def)
  moreover from b have "255 * q \<le> 2147483647" by (simp only: q_def)
  ultimately have "k \<le> 1073741823" using k by linarith
  with k show "is_radius k" by (simp add: is_radius_def)
qed

lemma window_sum_fits:
  assumes "window_fits k"
  shows "int32 (\<Sum>p\<in>valid_neighbors width height k x y. input_sample M input width channels c p) =
         (\<Sum>p\<in>valid_neighbors width height k x y. input_sample M input width channels c p)"
    and "int32 (\<Sum>p\<in>valid_neighbors width height k x y. src_sample M input width channels c p) =
         (\<Sum>p\<in>valid_neighbors width height k x y. src_sample M input width channels c p)"
    and "int32 (int (card (valid_neighbors width height k x y))) =
         int (card (valid_neighbors width height k x y))"
proof -
  from assms have k: "0 \<le> k" and b: "255 * ((2 * k + 1) * (2 * k + 1)) \<le> INT_MAX"
    by (simp_all add: window_fits_def)
  note n = card_valid_neighbors_le [OF k, of width height x y]
  have s: "0 \<le> sum F (valid_neighbors width height k x y) \<and>
           sum F (valid_neighbors width height k x y) \<le> INT_MAX"
    if F: "\<And>p. 0 \<le> F p \<and> F p \<le> 255" for F :: "int \<times> int \<Rightarrow> int"
  proof -
    have "sum F (valid_neighbors width height k x y) \<le> (\<Sum>p\<in>valid_neighbors width height k x y. 255)"
      by (intro sum_mono) (simp add: F)
    then have "sum F (valid_neighbors width height k x y) \<le>
        255 * int (card (valid_neighbors width height k x y))"
      by simp
    moreover have "0 \<le> sum F (valid_neighbors width height k x y)"
      by (intro sum_nonneg) (simp add: F)
    ultimately show ?thesis using n b by linarith
  qed
  have u: "0 \<le> uint w \<and> uint w \<le> 255" for w :: byte
    using uint_bounded [of w] by simp
  have "0 \<le> input_sample M input width channels c p \<and> input_sample M input width channels c p \<le> 255" for p
    by (cases p) (simp add: input_sample_def u)
  from s [OF this] show "int32 (\<Sum>p\<in>valid_neighbors width height k x y. input_sample M input width channels c p) =
         (\<Sum>p\<in>valid_neighbors width height k x y. input_sample M input width channels c p)"
    by (intro int32_nonneg_id) simp_all
  have "0 \<le> src_sample M input width channels c p \<and> src_sample M input width channels c p \<le> 255" for p
    by (cases p) (simp add: src_sample_def u)
  from s [OF this] show "int32 (\<Sum>p\<in>valid_neighbors width height k x y. src_sample M input width channels c p) =
         (\<Sum>p\<in>valid_neighbors width height k x y. src_sample M input width channels c p)"
    by (intro int32_nonneg_id) simp_all
  show "int32 (int (card (valid_neighbors width height k x y))) =
         int (card (valid_neighbors width height k x y))"
    using n b by (intro int32_nonneg_id) simp_all
qed

lemma average32_exact:
  "window_fits k \<Longrightarrow>
   average32 M input width height channels k x y c = window_average M input width height channels k x y c"
  by (simp add: average32_def window_average_def window_sum_fits(1))

lemma stored_at_exact:
  "window_fits k \<Longrightarrow>
   stored_at M input width height channels k d = blurred_at M input width height channels k d"
  by (simp add: stored_at_def blurred_at_def average32_exact)

lemma stored_exact:
  "window_fits k \<Longrightarrow>
   stored M input width height channels k = blurred M input width height channels k"
  by (simp add: stored_def blurred_def stored_at_exact)

text \<open>
  With a representable input size the index \<open>src_idx\<close> does not wrap, and the
  accumulation is the wrapped sum of the input samples and their number.
\<close>

lemma src_sample_exact:
  assumes p: "p \<in> valid_neighbors width height k x y"
    and ch: "channels = 1 \<or> 3 \<le> channels" and c: "0 \<le> c" "c < 3"
    and rep: "width * height * channels \<le> INT_MAX"
  shows "src_sample M input width channels c p = input_sample M input width channels c p"
proof -
  obtain nx ny where pq: "p = (nx, ny)" by (cases p)
  with p have b: "0 \<le> nx" "nx < width" "0 \<le> ny" "ny < height"
    by (simp_all add: valid_neighbors_iff)
  have t: "0 \<le> (if channels = 1 then 0 else c)" "(if channels = 1 then 0 else c) < channels"
    using c ch by auto
  show ?thesis
    unfolding pq src_sample_def input_sample_def prod.case
    by (simp only: src_idx_exact [OF b t rep])
qed

lemma sizes_representable:
  assumes "0 < width" "0 < height" "1 \<le> channels" "width * height * channels \<le> INT_MAX"
  shows "width \<le> INT_MAX" "height \<le> INT_MAX" "width * height \<le> INT_MAX"
proof -
  have "width * 1 \<le> width * height" using assms by (intro mult_left_mono) auto
  moreover have "1 * height \<le> width * height" using assms by (intro mult_right_mono) auto
  moreover have "(width * height) * 1 \<le> (width * height) * channels"
    using assms by (intro mult_left_mono) auto
  ultimately show "width \<le> INT_MAX" "height \<le> INT_MAX" "width * height \<le> INT_MAX"
    using assms(4) by simp_all
qed

lemma accumulate_color_eq:
  assumes b: "0 \<le> x" "x < width" "0 \<le> y" "y < height" and k: "is_radius k"
    and ch: "channels = 1 \<or> 3 \<le> channels" and c: "0 \<le> c" "c < 3"
    and rep: "width * height * channels \<le> INT_MAX"
  shows "accumulate_color M input width height channels k x y c =
     (int32 (\<Sum>p\<in>valid_neighbors width height k x y. input_sample M input width channels c p),
      int (card (valid_neighbors width height k x y)))"
proof -
  have ch1: "1 \<le> channels" using ch by auto
  have wh: "0 < width" "0 < height" using b by simp_all
  note a = sizes_representable [OF wh ch1 rep]
  have xy: "x \<le> INT_MAX" "y \<le> INT_MAX" using b a by simp_all
  have n: "int32 (int (card (valid_neighbors width height k x y))) =
           int (card (valid_neighbors width height k x y))"
    using card_valid_neighbors_le_area [of width height k x y] wh a(3)
    by (intro int32_nonneg_id) simp_all
  have s: "(\<Sum>p\<in>valid_neighbors width height k x y. src_sample M input width channels c p) =
           (\<Sum>p\<in>valid_neighbors width height k x y. input_sample M input width channels c p)"
    by (intro sum.cong refl src_sample_exact [OF _ ch c rep])
  show ?thesis
    by (simp only: accumulate_color_sum [OF b(1) xy(1) b(3) xy(2) k a(1,2)] n s)
qed


section \<open>Stores and the effect of loops\<close>

lemma for_each_writes:
  assumes step: "\<And>t M. t \<in> set ts \<Longrightarrow> P M \<Longrightarrow>
                   \<exists>M'. body t M = Some M' \<and> P M' \<and> writes M M' (W t) v"
    and "P M"
  shows "\<exists>M'. for_each ts body M = Some M' \<and> P M' \<and> writes M M' (\<Union>t\<in>set ts. W t) v"
  using assms
proof (induction ts arbitrary: M)
  case Nil
  then show ?case by (simp add: writes_def)
next
  case (Cons t ts)
  from Cons.prems(1) [of t M] Cons.prems(2)
  obtain M1 where M1: "body t M = Some M1" "P M1" "writes M M1 (W t) v" by auto
  from Cons.IH [of M1] Cons.prems(1) M1(2)
  obtain M' where M': "for_each ts body M1 = Some M'" "P M'" "writes M1 M' (\<Union>t\<in>set ts. W t) v"
    by auto
  have "writes M M' (\<Union>t\<in>set (t # ts). W t) v"
    unfolding writes_def
  proof (intro conjI allI ballI impI)
    fix a assume "a \<notin> (\<Union>t\<in>set (t # ts). W t)"
    then have "a \<notin> W t" "a \<notin> (\<Union>t\<in>set ts. W t)" by auto
    with M1(3) M'(3) show "M' a = M a" unfolding writes_def by metis
  next
    fix a assume a: "a \<in> (\<Union>t\<in>set (t # ts). W t)"
    show "M' a = v a"
    proof (cases "a \<in> (\<Union>t\<in>set ts. W t)")
      case True
      with M'(3) show ?thesis unfolding writes_def by blast
    next
      case False
      with a have "a \<in> W t" by auto
      with False M1(3) M'(3) show ?thesis unfolding writes_def by metis
    qed
  qed
  with M1(1) M'(1,2) show ?case by simp
qed

lemma for_each_frame:
  assumes step: "\<And>t M M'. t \<in> set ts \<Longrightarrow> body t M = Some M' \<Longrightarrow> \<forall>a. a \<notin> W \<longrightarrow> M' a = M a"
    and "for_each ts body M = Some M'"
  shows "\<forall>a. a \<notin> W \<longrightarrow> M' a = M a"
  using assms
proof (induction ts arbitrary: M)
  case Nil
  then show ?case by simp
next
  case (Cons t ts)
  from Cons.prems(2) obtain M1 where M1: "body t M = Some M1" "for_each ts body M1 = Some M'"
    by (auto split: option.splits)
  from Cons.prems(1) [of t M M1] M1(1) have "\<forall>a. a \<notin> W \<longrightarrow> M1 a = M a" by simp
  moreover from Cons.IH [of M1] Cons.prems(1) M1(2) have "\<forall>a. a \<notin> W \<longrightarrow> M' a = M1 a" by auto
  ultimately show ?case by simp
qed

lemma decode_dst:
  fixes x y c width :: int
  assumes "0 \<le> x" "x < width" "0 \<le> y" "0 \<le> c" "c < 3"
  shows "int (nat ((y * width + x) * 3 + c)) mod 3 = c"
    and "int (nat ((y * width + x) * 3 + c)) div 3 mod width = x"
    and "int (nat ((y * width + x) * 3 + c)) div 3 div width = y"
proof -
  define p where "p = y * width + x"
  have p: "0 \<le> p" using assms by (simp add: p_def)
  then have n: "int (nat (p * 3 + c)) = p * 3 + c"
    using assms by simp
  have m: "(p * 3 + c) mod 3 = c" using assms by simp
  have d: "(p * 3 + c) div 3 = p" using assms by simp
  have px: "p mod width = x" using assms by (simp add: p_def)
  have py: "p div width = y" using assms by (simp add: p_def)
  show "int (nat ((y * width + x) * 3 + c)) mod 3 = c"
    using n m by (simp only: p_def)
  show "int (nat ((y * width + x) * 3 + c)) div 3 mod width = x"
    using n d px by (simp only: p_def)
  show "int (nat ((y * width + x) * 3 + c)) div 3 div width = y"
    using n d py by (simp only: p_def)
qed

lemma stored_at_dst:
  assumes "0 \<le> x" "x < width" "0 \<le> y" "0 \<le> c" "c < 3"
  shows "stored_at M input width height channels k (nat ((y * width + x) * 3 + c)) =
         word_of_int (average32 M input width height channels k x y c)"
  by (simp only: stored_at_def Let_def decode_dst [OF assms])

lemma for_each_cong:
  assumes "\<And>t. t \<in> set ts \<Longrightarrow> body t = body' t"
  shows "for_each ts body = for_each ts body'"
proof
  fix s show "for_each ts body s = for_each ts body' s"
    using assms by (induction ts arbitrary: s) (simp_all split: option.splits)
qed

lemma for_below_eq: "for_below i hi = for_each [i..hi - 1]"
  by (intro ext) (rule for_below_for_each)

section \<open>One pixel\<close>

lemma idx_nonneg: "0 \<le> d \<Longrightarrow> idx p d = p + nat d"
  by (simp add: idx_def nat_add_distrib)

lemma c_div_count:
  "1 \<le> n \<Longrightarrow> c_div s n = Some (s sdiv n)"
  by (simp add: c_div_def)

text \<open>One store of a sample: the accumulation, the division and the cast.\<close>

lemma sample_step:
  assumes b: "0 \<le> x" "x < width" "0 \<le> y" "y < height" and k: "is_radius k"
    and c: "0 \<le> c" "c < 3" and ch: "channels = 1 \<or> 3 \<le> channels"
    and rep: "width * height * channels \<le> INT_MAX"
    and s: "same_rgb M0 input M input width height channels"
  shows "(case accumulate_color M input width height channels k x y c of
            (s, n) \<Rightarrow>
              (case c_div s n of
                 None \<Rightarrow> None
               | Some q \<Rightarrow> Some (M(a := word_of_int q)))) =
         Some (M(a := word_of_int (average32 M0 input width height channels k x y c)))"
proof -
  from k have k0: "0 \<le> k" by (simp add: is_radius_def)
  have "0 < int (card (valid_neighbors width height k x y))"
    using card_valid_neighbors_pos [OF b k0] by (simp only: of_nat_0_less_iff)
  then have n: "1 \<le> int (card (valid_neighbors width height k x y))"
    by linarith
  have "average32 M input width height channels k x y c =
      average32 M0 input width height channels k x y c"
    by (rule same_rgb_average32 [symmetric, OF s c ch])
  then show ?thesis
    by (simp only: accumulate_color_eq [OF b k ch c rep] prod.case c_div_count [OF n]
          option.case average32_def)
qed

lemma pixel_writes:
  assumes b: "0 \<le> x" "x < width" "0 \<le> y" "y < height" and k: "is_radius k"
    and ch: "channels = 1 \<or> 3 \<le> channels"
    and rep: "width * height * channels \<le> INT_MAX"
    and inv: "\<And>M. P M \<Longrightarrow> same_rgb M0 input M input width height channels"
    and keep: "\<And>M c q. P M \<Longrightarrow> 0 \<le> c \<Longrightarrow> c < 3 \<Longrightarrow> P (M(a c := q))"
    and v: "\<And>c. 0 \<le> c \<Longrightarrow> c < 3 \<Longrightarrow>
              v (a c) = word_of_int (average32 M0 input width height channels k x y c)"
    and "P M"
  shows "\<exists>M'. for_below 0 3 (\<lambda>c M.
            case accumulate_color M input width height channels k x y c of
              (s, n) \<Rightarrow>
                (case c_div s n of
                   None \<Rightarrow> None
                 | Some q \<Rightarrow> Some (M(a c := word_of_int q)))) M = Some M' \<and>
          P M' \<and> writes M M' (a ` {0..2}) v"
proof -
  have "\<exists>M'. for_each [0..3 - 1] (\<lambda>c M.
            case accumulate_color M input width height channels k x y c of
              (s, n) \<Rightarrow>
                (case c_div s n of
                   None \<Rightarrow> None
                 | Some q \<Rightarrow> Some (M(a c := word_of_int q)))) M = Some M' \<and>
          P M' \<and> writes M M' (\<Union>c\<in>set [0..3 - 1]. {a c}) v"
  proof (rule for_each_writes [where P = P])
    fix c M assume c: "c \<in> set [0..3 - 1]" and P: "P M"
    then have c3: "0 \<le> c" "c < 3" by simp_all
    have "writes M (M(a c := word_of_int (average32 M0 input width height channels k x y c))) {a c} v"
      by (simp add: writes_def v [OF c3])
    with keep [OF P c3] show "\<exists>M'. (case accumulate_color M input width height channels k x y c of
              (s, n) \<Rightarrow>
                (case c_div s n of
                   None \<Rightarrow> None
                 | Some q \<Rightarrow> Some (M(a c := word_of_int q)))) = Some M' \<and>
          P M' \<and> writes M M' {a c} v"
      by (simp only: sample_step [OF b k c3 ch rep inv [OF P]]) blast
  qed fact
  moreover have "(\<Union>c\<in>set [0..3 - 1]. {a c}) = a ` {0..2}" by auto
  ultimately show ?thesis by (simp only: for_below_for_each)
qed

text \<open>
  The three stores of a pixel go through the index \<open>dst_idx\<close>, which does not wrap
  when the output size is representable.
\<close>

lemma pixel_exact:
  assumes "0 \<le> x" "x < width" "0 \<le> y" "y < height" and "width * height * 3 \<le> INT_MAX"
  shows "for_below 0 3 (\<lambda>c M.
            case acc M c of
              (s, n) \<Rightarrow>
                (case c_div s n of
                   None \<Rightarrow> None
                 | Some q \<Rightarrow> Some (M(idx output_rgb
                     (int32 (int32 (int32 (int32 (y * width) + x) * 3) + c)) := word_of_int q)))) =
         for_below 0 3 (\<lambda>c M.
            case acc M c of
              (s, n) \<Rightarrow>
                (case c_div s n of
                   None \<Rightarrow> None
                 | Some q \<Rightarrow> Some (M(idx output_rgb ((y * width + x) * 3 + c) := word_of_int q))))"
  unfolding for_below_eq
proof (rule for_each_cong)
  fix c :: int assume "c \<in> set [0..3 - 1]"
  then have c: "0 \<le> c" "c < 3" by simp_all
  show "(\<lambda>M. case acc M c of
              (s, n) \<Rightarrow>
                (case c_div s n of
                   None \<Rightarrow> None
                 | Some q \<Rightarrow> Some (M(idx output_rgb
                     (int32 (int32 (int32 (int32 (y * width) + x) * 3) + c)) := word_of_int q)))) =
        (\<lambda>M. case acc M c of
              (s, n) \<Rightarrow>
                (case c_div s n of
                   None \<Rightarrow> None
                 | Some q \<Rightarrow> Some (M(idx output_rgb ((y * width + x) * 3 + c) := word_of_int q))))"
    by (simp only: dst_idx_exact [OF assms(1-4) c assms(5)])
qed

section \<open>The cells of the output buffer\<close>

lemma int_div_less:
  fixes a b c :: int
  assumes "a < b * c" "0 < c"
  shows "a div c < b"
proof (rule ccontr)
  assume "\<not> a div c < b"
  then have "b * c \<le> (a div c) * c" using assms by (intro mult_right_mono) auto
  also have "\<dots> \<le> a"
  proof -
    have "c * (a div c) + a mod c = a" by simp
    moreover have "0 \<le> a mod c" using assms by simp
    ultimately have "c * (a div c) \<le> a" by linarith
    then show ?thesis by (simp add: mult.commute)
  qed
  finally show False using assms by simp
qed

lemma dst_in_output:
  assumes "0 \<le> x" "x < width" "0 \<le> y" "y < height" "0 \<le> c" "c < 3"
  shows "idx output_rgb ((y * width + x) * 3 + c) \<in> {output_rgb..<output_rgb + nat (width * height * 3)}"
  using dst_in_bounds [OF assms] by (simp add: idx_nonneg)

lemma output_cells:
  assumes w: "0 < width"
  shows "(\<Union>y\<in>{0..height - 1}. \<Union>x\<in>{0..width - 1}. (\<lambda>c. idx output_rgb ((y * width + x) * 3 + c)) ` {0..2}) =
     {output_rgb..<output_rgb + nat (width * height * 3)}"
proof (intro equalityI subsetI)
  fix a
  assume "a \<in> (\<Union>y\<in>{0..height - 1}. \<Union>x\<in>{0..width - 1}.
                 (\<lambda>c. idx output_rgb ((y * width + x) * 3 + c)) ` {0..2})"
  then obtain x y c where "0 \<le> x" "x < width" "0 \<le> y" "y < height" "0 \<le> c" "c < 3"
    and "a = idx output_rgb ((y * width + x) * 3 + c)" by auto
  then show "a \<in> {output_rgb..<output_rgb + nat (width * height * 3)}"
    using dst_in_output by simp
next
  fix a
  assume a: "a \<in> {output_rgb..<output_rgb + nat (width * height * 3)}"
  define d where "d = int (a - output_rgb)"
  have d: "0 \<le> d" "d < width * height * 3" "a = idx output_rgb d"
    using a by (auto simp: d_def idx_def)
  define c p where "c = d mod 3" and "p = d div 3"
  have c: "0 \<le> c" "c < 3" by (simp_all add: c_def)
  have dp: "d = p * 3 + c" by (simp add: c_def p_def)
  have p: "0 \<le> p" "p < width * height"
    using d by (simp_all add: p_def pos_imp_zdiv_nonneg_iff div_less_iff_less_mult)
  define x y where "x = p mod width" and "y = p div width"
  have x: "0 \<le> x" "x < width" using w by (simp_all add: x_def)
  have pxy: "p = y * width + x" by (simp add: x_def y_def)
  have y: "0 \<le> y" "y < height"
    using p w int_div_less [of p height width]
    by (simp_all add: y_def pos_imp_zdiv_nonneg_iff mult.commute)
  have "a = idx output_rgb ((y * width + x) * 3 + c)"
    using d(3) dp pxy by simp
  with x y c show "a \<in> (\<Union>y\<in>{0..height - 1}. \<Union>x\<in>{0..width - 1}.
                 (\<lambda>c. idx output_rgb ((y * width + x) * 3 + c)) ` {0..2})"
    by (intro UN_I [of y] UN_I [of x] image_eqI [of _ _ c]) auto
qed

lemma frame_same_rgb:
  assumes sep: "separate input (nat (width * height * channels)) output_rgb n"
    and fr: "\<forall>a. a \<notin> {output_rgb..<output_rgb + n} \<longrightarrow> M a = M0 a"
    and ch: "channels = 1 \<or> 3 \<le> channels"
  shows "same_rgb M0 input M input width height channels"
  unfolding same_rgb_def
proof (intro ballI)
  fix p c assume p: "p \<in> {0..<width * height}" and c: "c \<in> {0..<min channels 3}"
  then have "0 \<le> p" "p < width * height" "0 \<le> c" "c < channels" by auto
  from index_in_bounds [OF this]
  have i: "0 \<le> p * channels + c" "p * channels + c < width * height * channels" .
  then have "idx input (p * channels + c) \<in> {input..<input + nat (width * height * channels)}"
    by (simp add: idx_nonneg)
  with sep have "idx input (p * channels + c) \<notin> {output_rgb..<output_rgb + n}"
    by (auto simp: separate_def)
  with fr show "M0 (idx input (p * channels + c)) = M (idx input (p * channels + c))"
    by simp
qed

lemma dst32_in_output:
  assumes "0 \<le> x" "x < width" "0 \<le> y" "y < height" "0 \<le> c" "c < 3"
    and "width * height * 3 \<le> INT_MAX"
  shows "idx output_rgb (int32 (int32 (int32 (int32 (y * width) + x) * 3) + c))
           \<in> {output_rgb..<output_rgb + nat (width * height * 3)}"
  by (simp only: dst_idx_exact [OF assms]) (rule dst_in_output [OF assms(1-6)])

section \<open>The result of the sequential backend\<close>

lemma well_formedD:
  assumes "well_formed input output_rgb width height channels"
  shows "0 < width" "0 < height" "channels = 1 \<or> 3 \<le> channels"
    "separate input (nat (width * height * channels)) output_rgb (nat (width * height * 3))"
    "width * height * channels \<le> INT_MAX" "width * height * 3 \<le> INT_MAX"
  using assms by (auto simp: well_formed_def representable_def)

lemma stored_at_cell:
  assumes "0 \<le> x" "x < width" "0 \<le> y" "y < height" "0 \<le> c" "c < 3"
  shows "stored_at M input width height channels k (idx output_rgb ((y * width + x) * 3 + c) - output_rgb) =
         word_of_int (average32 M input width height channels k x y c)"
proof -
  have "idx output_rgb ((y * width + x) * 3 + c) - output_rgb = nat ((y * width + x) * 3 + c)"
    using dst_in_bounds(1) [OF assms] by (simp add: idx_nonneg)
  then show ?thesis
    using stored_at_dst [OF assms(1,2,3,5,6)] by simp
qed

lemma pixel_color_writes:
  assumes wf: "well_formed input output_rgb width height channels" and k: "is_radius k"
    and b: "0 \<le> x" "x < width" "0 \<le> y" "y < height"
    and fr: "\<forall>a. a \<notin> {output_rgb..<output_rgb + nat (width * height * 3)} \<longrightarrow> M a = M0 a"
  shows "\<exists>M'. for_below 0 3 (\<lambda>c M.
            case accumulate_color M input width height channels k x y c of
              (s, n) \<Rightarrow>
                (case c_div s n of
                   None \<Rightarrow> None
                 | Some q \<Rightarrow> Some (M(idx output_rgb
                     (int32 (int32 (int32 (int32 (y * width) + x) * 3) + c)) := word_of_int q)))) M = Some M' \<and>
          (\<forall>a. a \<notin> {output_rgb..<output_rgb + nat (width * height * 3)} \<longrightarrow> M' a = M0 a) \<and>
          writes M M' ((\<lambda>c. idx output_rgb ((y * width + x) * 3 + c)) ` {0..2})
            (\<lambda>a. stored_at M0 input width height channels k (a - output_rgb))"
  unfolding pixel_exact [OF b well_formedD(6) [OF wf]]
proof (rule pixel_writes [where P = "\<lambda>M. \<forall>a. a \<notin> {output_rgb..<output_rgb + nat (width * height * 3)} \<longrightarrow> M a = M0 a"
        and a = "\<lambda>c. idx output_rgb ((y * width + x) * 3 + c)" and ?M0.0 = M0,
        OF b k well_formedD(3) [OF wf] well_formedD(5) [OF wf]])
  fix M assume "\<forall>a. a \<notin> {output_rgb..<output_rgb + nat (width * height * 3)} \<longrightarrow> M a = M0 a"
  then show "same_rgb M0 input M input width height channels"
    by (rule frame_same_rgb [OF well_formedD(4) [OF wf] _ well_formedD(3) [OF wf]])
next
  fix M :: mem and c :: int and q
  assume "\<forall>a. a \<notin> {output_rgb..<output_rgb + nat (width * height * 3)} \<longrightarrow> M a = M0 a"
    and "0 \<le> c" "c < 3"
  then show "\<forall>a. a \<notin> {output_rgb..<output_rgb + nat (width * height * 3)} \<longrightarrow>
              (M(idx output_rgb ((y * width + x) * 3 + c) := q)) a = M0 a"
    using dst_in_output [OF b, of c output_rgb] by auto
next
  fix c :: int assume "0 \<le> c" "c < 3"
  then show "stored_at M0 input width height channels k (idx output_rgb ((y * width + x) * 3 + c) - output_rgb) =
      word_of_int (average32 M0 input width height channels k x y c)"
    by (rule stored_at_cell [OF b])
qed (rule fr)

lemma apply_box_blur_color_writes:
  assumes wf: "well_formed input output_rgb width height channels"
    and k: "is_radius (kernel_size sdiv 2)"
  shows "\<exists>M'. apply_box_blur_color M0 input output_rgb width height channels kernel_size = Some M' \<and>
           writes M0 M' {output_rgb..<output_rgb + nat (width * height * 3)}
             (\<lambda>a. stored_at M0 input width height channels (kernel_size sdiv 2) (a - output_rgb))"
proof -
  let ?O = "{output_rgb..<output_rgb + nat (width * height * 3)}"
  let ?P = "\<lambda>M. \<forall>a. a \<notin> ?O \<longrightarrow> M a = M0 a"
  let ?v = "\<lambda>a. stored_at M0 input width height channels (kernel_size sdiv 2) (a - output_rgb)"
  let ?pixel = "\<lambda>y x. for_below 0 3 (\<lambda>c M.
            case accumulate_color M input width height channels (kernel_size sdiv 2) x y c of
              (s, n) \<Rightarrow>
                (case c_div s n of
                   None \<Rightarrow> None
                 | Some q \<Rightarrow> Some (M(idx output_rgb
                     (int32 (int32 (int32 (int32 (y * width) + x) * 3) + c)) := word_of_int q))))"
  let ?W = "\<lambda>y x. (\<lambda>c. idx output_rgb ((y * width + x) * 3 + c)) ` {0..2}"
  have row: "\<exists>M'. for_each [0..width - 1] (?pixel y) M = Some M' \<and> ?P M' \<and>
               writes M M' (\<Union>x\<in>set [0..width - 1]. ?W y x) ?v"
    if "y \<in> set [0..height - 1]" "?P M" for y M
  proof (rule for_each_writes [where P = ?P, OF _ that(2)])
    fix x M assume "x \<in> set [0..width - 1]" "?P M"
    with that(1) show "\<exists>M'. ?pixel y x M = Some M' \<and> ?P M' \<and> writes M M' (?W y x) ?v"
      by (intro pixel_color_writes [OF wf k]) auto
  qed
  have "\<exists>M'. for_each [0..height - 1] (\<lambda>y. for_each [0..width - 1] (?pixel y)) M0 = Some M' \<and> ?P M' \<and>
               writes M0 M' (\<Union>y\<in>set [0..height - 1]. \<Union>x\<in>set [0..width - 1]. ?W y x) ?v"
    by (rule for_each_writes [where P = ?P]) (use row in auto)
  moreover have "(\<Union>y\<in>set [0..height - 1]. \<Union>x\<in>set [0..width - 1]. ?W y x) = ?O"
    using output_cells [OF well_formedD(1) [OF wf]] by (simp only: set_upto)
  ultimately show ?thesis
    unfolding apply_box_blur_color_def Let_def for_below_eq [of 0 height] for_below_eq [of 0 width]
    by auto
qed


section \<open>The samples of the sequential backend\<close>

lemma accumulate_backends:
  "accumulate_openmp = accumulate_color" "accumulate_mpi = accumulate_color"
  "accumulate_cl = accumulate_color" "accumulate_cuda = accumulate_color"
  by (simp_all add: fun_eq_iff accumulate_openmp_def accumulate_mpi_def accumulate_cl_def
        accumulate_cuda_def accumulate_color_def)

lemma src_sample_range:
  "0 \<le> src_sample M input width channels c p" "src_sample M input width channels c p \<le> 255"
proof -
  obtain nx ny where p: "p = (nx, ny)" by (cases p)
  show "0 \<le> src_sample M input width channels c p" by (simp add: p src_sample_def)
  have "uint w \<le> 255" for w :: byte
    using uint_bounded [of w] by simp
  then show "src_sample M input width channels c p \<le> 255" by (simp add: p src_sample_def)
qed

lemma accumulate_color_division:
  assumes b: "0 \<le> x" "x < width" "0 \<le> y" "y < height"
    and wh: "width \<le> INT_MAX" "height \<le> INT_MAX" and f: "window_fits k"
  shows "case accumulate_color M input width height channels k x y c of
           (s, n) \<Rightarrow> 1 \<le> n \<and>
             (\<exists>q. c_div s n = Some q \<and> 0 \<le> q \<and> q \<le> 255 \<and> uint (word_of_int q :: byte) = q)"
proof -
  let ?S = "\<Sum>p\<in>valid_neighbors width height k x y. src_sample M input width channels c p"
  let ?n = "int (card (valid_neighbors width height k x y))"
  note r = window_fits_radius [OF f]
  from f have k0: "0 \<le> k" by (simp add: window_fits_def)
  have xy: "x \<le> INT_MAX" "y \<le> INT_MAX" using b wh by simp_all
  have acc: "accumulate_color M input width height channels k x y c = (?S, ?n)"
    by (simp only: accumulate_color_sum [OF b(1) xy(1) b(3) xy(2) r wh] window_sum_fits(2,3) [OF f])
  have "0 < ?n"
    using card_valid_neighbors_pos [OF b k0] by (simp only: of_nat_0_less_iff)
  then have n: "1 \<le> ?n" "0 < ?n" by linarith+
  have s0: "0 \<le> ?S" by (intro sum_nonneg src_sample_range)
  have "?S \<le> (\<Sum>p\<in>valid_neighbors width height k x y. 255)"
    by (intro sum_mono src_sample_range)
  then have s1: "?S \<le> 255 * ?n" by simp
  note q = truncated_average_range [OF s0 s1 n(2)]
  have "uint (word_of_int (?S sdiv ?n) :: byte) = ?S sdiv ?n"
    using q(2,3) by (simp add: uint_word_of_int take_bit_int_eq_self)
  with n(1) q(2,3) show ?thesis
    by (simp only: acc prod.case c_div_count [OF n(1)]) blast
qed

text \<open>
  Claim C10, for the windows that a 32-bit sum can hold.  For an image whose width and
  height are values of type \<open>int\<close>, every in-bounds coordinate and every radius whose
  window fits (255 times its area is at most \<open>INT_MAX\<close>), the window accumulation of
  the sequential and of the shared-memory backend ends with a count of at least 1, so
  the division does not trap; its quotient lies between 0 and 255, and the cast to an
  unsigned 8-bit sample keeps its value.
\<close>

theorem count_positive_and_average_fits:
  assumes "0 \<le> x" and "x < width" and "0 \<le> y" and "y < height"
    and "width \<le> INT_MAX" and "height \<le> INT_MAX" and "window_fits k_offset"
  shows "(case accumulate_color M input width height channels k_offset x y c of
            (s, n) \<Rightarrow> 1 \<le> n \<and>
              (\<exists>q. c_div s n = Some q \<and> 0 \<le> q \<and> q \<le> 255 \<and> uint (word_of_int q :: byte) = q)) \<and>
         (case accumulate_openmp M input width height channels k_offset x y c of
            (s, n) \<Rightarrow> 1 \<le> n \<and>
              (\<exists>q. c_div s n = Some q \<and> 0 \<le> q \<and> q \<le> 255 \<and> uint (word_of_int q :: byte) = q))"
  using accumulate_color_division [OF assms] by (simp add: accumulate_backends)

theorem count_positive_and_average_fits_witness:
  "(0::int) \<le> 3 \<and> (3::int) < 4 \<and> (0::int) \<le> 0 \<and> (0::int) < 4 \<and>
   (4::int) \<le> INT_MAX \<and> window_fits 2 \<and>
   (case accumulate_color (\<lambda>a. 255) 0 4 4 1 2 3 0 0 of
      (s, n) \<Rightarrow> 1 \<le> n \<and>
        (\<exists>q. c_div s n = Some q \<and> 0 \<le> q \<and> q \<le> 255 \<and> uint (word_of_int q :: byte) = q)) \<and>
   accumulate_color (\<lambda>a. 255) 0 4 4 1 2 3 0 0 = (2295, 9) \<and>
   c_div 2295 9 = Some 255"
  using count_positive_and_average_fits [of 3 4 0 4 2 "\<lambda>a. 255" 0 1 0]
  by (simp add: accumulate_color_def for_upto.simps idx_def c_div_def signed_divide_int_def
        int32_def INT_MAX_def window_fits_def)

text \<open>
  An image of 3000 by 3000 samples of value 255 and the radius 3000: the window of the
  pixel (0, 0) is the whole image, and the sum of its 9000000 samples, 2295000000, is
  more than \<open>INT_MAX\<close>.
\<close>

lemma white_window:
  "valid_neighbors 3000 3000 3000 0 0 = {0..<3000} \<times> {0..<3000}"
  "int (card (valid_neighbors 3000 3000 3000 0 0)) = 9000000"
  "(\<Sum>p\<in>valid_neighbors 3000 3000 3000 0 0. input_sample (\<lambda>a. 255) 0 3000 1 0 p) = 2295000000"
proof -
  show v: "valid_neighbors 3000 3000 3000 0 0 = {0..<3000} \<times> {0..<3000}"
    by (auto simp: valid_neighbors_def)
  show n: "int (card (valid_neighbors 3000 3000 3000 0 0)) = 9000000"
    by (simp add: v)
  have "input_sample (\<lambda>a. 255) 0 3000 1 0 p = 255" for p
    by (cases p) (simp add: input_sample_def)
  then have "(\<Sum>p\<in>valid_neighbors 3000 3000 3000 0 0. input_sample (\<lambda>a. 255) 0 3000 1 0 p) =
      255 * int (card (valid_neighbors 3000 3000 3000 0 0))"
    by simp
  then show "(\<Sum>p\<in>valid_neighbors 3000 3000 3000 0 0. input_sample (\<lambda>a. 255) 0 3000 1 0 p) = 2295000000"
    by (simp only: n)
qed

lemma white_accumulation:
  "accumulate_color (\<lambda>a. 255) 0 3000 3000 1 3000 0 0 0 = (- 1999967296, 9000000)"
proof -
  have "accumulate_color (\<lambda>a. 255) 0 3000 3000 1 3000 0 0 0 =
      (int32 (\<Sum>p\<in>valid_neighbors 3000 3000 3000 0 0. input_sample (\<lambda>a. 255) 0 3000 1 0 p),
       int (card (valid_neighbors 3000 3000 3000 0 0)))"
    by (rule accumulate_color_eq) (simp_all add: is_radius_def INT_MAX_def)
  then show ?thesis
    by (simp only: white_window(2,3)) (simp add: int32_def)
qed

text \<open>
  Claim C10 as it is stated (for every radius) fails there: the count is 9000000, but
  the 32-bit sum has wrapped to a negative value, the quotient is \<open>- 222\<close>, outside 0 to
  255, and the cast turns it into 34.
\<close>

theorem wrapped_sum_leaves_the_byte_range:
  "(0::int) \<le> 0 \<and> (0::int) < 3000 \<and> (0::int) \<le> 3000 \<and>
   accumulate_color (\<lambda>a. 255) 0 3000 3000 1 3000 0 0 0 = (- 1999967296, 9000000) \<and>
   c_div (- 1999967296) 9000000 = Some (- 222) \<and>
   \<not> (0::int) \<le> - 222 \<and>
   uint (word_of_int (- 222) :: byte) = 34"
  by (simp add: white_accumulation c_div_def signed_divide_int_def)

lemma writes_buffer:
  assumes "writes M M' {p..<p + n} (\<lambda>a. f (a - p))"
  shows "buffer M' p n = map f [0..<n]"
  using assms by (simp add: buffer_def writes_def)

lemma apply_box_blur_color_result:
  assumes wf: "well_formed input output_rgb width height channels"
    and k: "is_radius (kernel_size sdiv 2)"
  shows "\<exists>M'. apply_box_blur_color M input output_rgb width height channels kernel_size = Some M' \<and>
           (\<forall>a. a \<notin> {output_rgb..<output_rgb + nat (width * height * 3)} \<longrightarrow> M' a = M a) \<and>
           (\<forall>x y c. 0 \<le> x \<and> x < width \<and> 0 \<le> y \<and> y < height \<and> 0 \<le> c \<and> c < 3 \<longrightarrow>
              M' (idx output_rgb ((y * width + x) * 3 + c)) =
                word_of_int (average32 M input width height channels (kernel_size sdiv 2) x y c)) \<and>
           buffer M' output_rgb (nat (width * height * 3)) =
             stored M input width height channels (kernel_size sdiv 2)"
proof -
  from apply_box_blur_color_writes [OF wf k, of M]
  obtain M' where M': "apply_box_blur_color M input output_rgb width height channels kernel_size = Some M'"
    and w: "writes M M' {output_rgb..<output_rgb + nat (width * height * 3)}
             (\<lambda>a. stored_at M input width height channels (kernel_size sdiv 2) (a - output_rgb))"
    by blast
  have "M' (idx output_rgb ((y * width + x) * 3 + c)) =
          word_of_int (average32 M input width height channels (kernel_size sdiv 2) x y c)"
    if "0 \<le> x" "x < width" "0 \<le> y" "y < height" "0 \<le> c" "c < 3" for x y c
    using w dst_in_output [OF that, of output_rgb] stored_at_cell [OF that]
    by (simp add: writes_def)
  moreover have "\<forall>a. a \<notin> {output_rgb..<output_rgb + nat (width * height * 3)} \<longrightarrow> M' a = M a"
    using w by (simp add: writes_def)
  moreover have "buffer M' output_rgb (nat (width * height * 3)) =
             stored M input width height channels (kernel_size sdiv 2)"
    using writes_buffer [OF w] by (simp add: stored_def)
  ultimately show ?thesis using M' by blast
qed

text \<open>
  Claim C1, for the sizes that the 32-bit indices and sums can hold.  For an image of
  positive width and height with 1, 3 or 4 channels whose input and output sizes are
  representable, and a radius \<open>kernel_size / 2\<close> whose window fits, the sequential blur
  returns, and the output sample of every in-bounds coordinate \<open>(x, y)\<close> and channel \<open>c\<close>
  among 0, 1, 2 is the sum of the input samples of channel \<open>c\<close> (channel 0 of a
  single-channel image) over the in-bounds neighbours, divided with truncation by the
  number of those neighbours.
\<close>

theorem sequential_sample_is_window_average:
  assumes "well_formed input output_rgb width height channels"
    and "window_fits (kernel_size sdiv 2)"
  shows "\<exists>M'. apply_box_blur_color M input output_rgb width height channels kernel_size = Some M' \<and>
           (\<forall>x y c. 0 \<le> x \<and> x < width \<and> 0 \<le> y \<and> y < height \<and> 0 \<le> c \<and> c < 3 \<longrightarrow>
              uint (M' (idx output_rgb ((y * width + x) * 3 + c))) =
                (\<Sum>p\<in>valid_neighbors width height (kernel_size sdiv 2) x y.
                    input_sample M input width channels c p)
                sdiv int (card (valid_neighbors width height (kernel_size sdiv 2) x y)))"
proof -
  from assms(2) have k0: "0 \<le> kernel_size sdiv 2" by (simp add: window_fits_def)
  from apply_box_blur_color_result [OF assms(1) window_fits_radius [OF assms(2)], of M]
  obtain M' where M': "apply_box_blur_color M input output_rgb width height channels kernel_size = Some M'"
    and s: "\<And>x y c. 0 \<le> x \<and> x < width \<and> 0 \<le> y \<and> y < height \<and> 0 \<le> c \<and> c < 3 \<Longrightarrow>
              M' (idx output_rgb ((y * width + x) * 3 + c)) =
                word_of_int (average32 M input width height channels (kernel_size sdiv 2) x y c)"
    by blast
  have "uint (M' (idx output_rgb ((y * width + x) * 3 + c))) =
          (\<Sum>p\<in>valid_neighbors width height (kernel_size sdiv 2) x y.
              input_sample M input width channels c p)
          sdiv int (card (valid_neighbors width height (kernel_size sdiv 2) x y))"
    if "0 \<le> x \<and> x < width \<and> 0 \<le> y \<and> y < height \<and> 0 \<le> c \<and> c < 3" for x y c
    using s [OF that] window_average_range(3) [of x width y height "kernel_size sdiv 2" M input channels c]
      that k0
    by (simp add: average32_exact [OF assms(2)] window_average_def)
  with M' show ?thesis by blast
qed

theorem sequential_sample_is_window_average_witness:
  "well_formed 0 75 5 5 3 \<and> window_fits (3 sdiv 2) \<and>
   (\<exists>M'. apply_box_blur_color (\<lambda>a. 255) 0 75 5 5 3 3 = Some M' \<and>
           (\<forall>x y c. 0 \<le> x \<and> x < 5 \<and> 0 \<le> y \<and> y < 5 \<and> 0 \<le> c \<and> c < 3 \<longrightarrow>
              uint (M' (idx 75 ((y * 5 + x) * 3 + c))) =
                (\<Sum>p\<in>valid_neighbors 5 5 (3 sdiv 2) x y. input_sample (\<lambda>a. 255) 0 5 3 c p)
                sdiv int (card (valid_neighbors 5 5 (3 sdiv 2) x y))))"
  using sequential_sample_is_window_average [of 0 75 5 5 3 3 "\<lambda>a. 255"]
  by (simp add: well_formed_def separate_def representable_def INT_MAX_def window_fits_def
        signed_divide_int_def)

text \<open>
  Claim C1 as it is stated (for every radius) fails on the image of 3000 by 3000
  samples of value 255 with kernel size 6001: the blur returns, the average of the
  window of the pixel (0, 0) is 255, and the byte that the blur stores for it is 34.
\<close>

theorem wrapped_sum_in_the_output:
  "well_formed 0 9000000 3000 3000 1 \<and> (0::int) \<le> 6001 sdiv 2 \<and>
   map_option (\<lambda>M'. uint (M' (idx 9000000 ((0 * 3000 + 0) * 3 + 0))))
     (apply_box_blur_color (\<lambda>a. 255) 0 9000000 3000 3000 1 6001) = Some 34 \<and>
   window_average (\<lambda>a. 255) 0 3000 3000 1 (6001 sdiv 2) 0 0 0 = 255"
proof -
  have wf: "well_formed 0 9000000 3000 3000 1"
    by (simp add: well_formed_def separate_def representable_def INT_MAX_def)
  have r: "(6001::int) sdiv 2 = 3000"
    by (simp add: signed_divide_int_def)
  have k: "is_radius (6001 sdiv 2)"
    by (simp add: r is_radius_def)
  from apply_box_blur_color_result [OF wf k, of "\<lambda>a. 255"]
  obtain M' where M': "apply_box_blur_color (\<lambda>a. 255) 0 9000000 3000 3000 1 6001 = Some M'"
    and s: "\<And>x y c. 0 \<le> x \<and> x < 3000 \<and> 0 \<le> y \<and> y < 3000 \<and> 0 \<le> c \<and> c < 3 \<Longrightarrow>
              M' (idx 9000000 ((y * 3000 + x) * 3 + c)) =
                word_of_int (average32 (\<lambda>a. 255) 0 3000 3000 1 (6001 sdiv 2) x y c)"
    by blast
  have a: "average32 (\<lambda>a. 255) 0 3000 3000 1 3000 0 0 0 = - 222"
    unfolding average32_def white_window(2,3)
    by (simp add: int32_def signed_divide_int_def)
  have "M' (idx 9000000 ((0 * 3000 + 0) * 3 + 0)) = word_of_int (- 222)"
    using s [of 0 0 0] by (simp add: r a)
  then have "uint (M' (idx 9000000 ((0 * 3000 + 0) * 3 + 0))) = 34"
    by simp
  moreover have "window_average (\<lambda>a. 255) 0 3000 3000 1 (6001 sdiv 2) 0 0 0 = 255"
    unfolding r window_average_def white_window(2,3)
    by (simp add: signed_divide_int_def)
  ultimately show ?thesis
    using wf M' by (simp add: r)
qed

section \<open>The concrete scenario\<close>

lemma average32_accumulate:
  assumes "0 \<le> x" "x < width" "0 \<le> y" "y < height" and "is_radius k"
    and "channels = 1 \<or> 3 \<le> channels" and "0 \<le> c" "c < 3"
    and "width * height * channels \<le> INT_MAX"
  shows "average32 M input width height channels k x y c =
     (case accumulate_color M input width height channels k x y c of (s, n) \<Rightarrow> s sdiv n)"
  by (simp add: accumulate_color_eq [OF assms] average32_def)

text \<open>
  Claim C7.  On the 4 by 4 single-channel image with the samples 0 to 15 in row-major
  order and kernel size 3, the sequential blur writes 2 into the three channels of the
  output pixel (0, 0): the window accumulation there ends with the sum 10 = 0 + 1 + 4 + 5
  and the count 4.
\<close>

theorem corner_of_the_gradient:
  "\<exists>M'. apply_box_blur_color (\<lambda>a. word_of_nat a) 0 16 4 4 1 3 = Some M' \<and>
         M' (idx 16 ((0 * 4 + 0) * 3 + 0)) = 2 \<and>
         M' (idx 16 ((0 * 4 + 0) * 3 + 1)) = 2 \<and>
         M' (idx 16 ((0 * 4 + 0) * 3 + 2)) = 2 \<and>
         accumulate_color (\<lambda>a. word_of_nat a) 0 4 4 1 (3 sdiv 2) 0 0 0 = (10, 4)"
proof -
  have wf: "well_formed 0 16 4 4 1"
    by (simp add: well_formed_def separate_def representable_def INT_MAX_def)
  have r: "(3::int) sdiv 2 = 1"
    by (simp add: signed_divide_int_def)
  have k: "is_radius (3 sdiv 2)"
    by (simp add: r is_radius_def)
  have acc: "accumulate_color (\<lambda>a. word_of_nat a) 0 4 4 1 1 0 0 c = (10, 4)" for c
    by (simp add: accumulate_color_def for_upto.simps idx_def int32_def)
  have avg: "average32 (\<lambda>a. word_of_nat a) 0 4 4 1 1 0 0 c = 2" if "0 \<le> c" "c < 3" for c
    using that
    by (subst average32_accumulate) (simp_all add: is_radius_def INT_MAX_def acc signed_divide_int_def)
  from apply_box_blur_color_result [OF wf k, of "\<lambda>a. word_of_nat a"]
  obtain M' where M': "apply_box_blur_color (\<lambda>a. word_of_nat a) 0 16 4 4 1 3 = Some M'"
    and s: "\<And>x y c. 0 \<le> x \<and> x < 4 \<and> 0 \<le> y \<and> y < 4 \<and> 0 \<le> c \<and> c < 3 \<Longrightarrow>
              M' (idx 16 ((y * 4 + x) * 3 + c)) =
                word_of_int (average32 (\<lambda>a. word_of_nat a) 0 4 4 1 (3 sdiv 2) x y c)"
    by blast
  have "M' (idx 16 ((0 * 4 + 0) * 3 + 0)) = 2"
    using s [of 0 0 0] by (simp add: r avg)
  moreover have "M' (idx 16 ((0 * 4 + 0) * 3 + 1)) = 2"
    using s [of 0 0 1] by (simp add: r avg)
  moreover have "M' (idx 16 ((0 * 4 + 0) * 3 + 2)) = 2"
    using s [of 0 0 2] by (simp add: r avg)
  ultimately show ?thesis using M' acc by (simp add: r)
qed


section \<open>The result of the shared-memory backend\<close>

lemma set_collapsed_iterations:
  "set (collapsed_iterations height width) = {0..height - 1} \<times> {0..width - 1}"
  by (simp add: collapsed_iterations_def)

lemma output_cells_product:
  assumes "0 < width"
  shows "(\<Union>(y, x)\<in>{0..height - 1} \<times> {0..width - 1}.
            (\<lambda>c. idx output_rgb ((y * width + x) * 3 + c)) ` {0..2}) =
         {output_rgb..<output_rgb + nat (width * height * 3)}"
proof -
  have "(\<Union>(y, x)\<in>A \<times> B. F y x) = (\<Union>y\<in>A. \<Union>x\<in>B. F y x)"
    for A B and F :: "int \<Rightarrow> int \<Rightarrow> addr set"
    by auto
  then show ?thesis
    by (simp only: output_cells [OF assms])
qed

lemma apply_box_blur_openmp_writes:
  assumes wf: "well_formed input output_rgb width height channels"
    and k: "is_radius (kernel_size sdiv 2)"
    and sched: "schedule_of (collapsed_iterations height width) (schedule (collapsed_iterations height width))"
  shows "\<exists>M'. apply_box_blur_openmp schedule M0 input output_rgb width height channels kernel_size = Some M' \<and>
           writes M0 M' {output_rgb..<output_rgb + nat (width * height * 3)}
             (\<lambda>a. stored_at M0 input width height channels (kernel_size sdiv 2) (a - output_rgb))"
proof -
  let ?O = "{output_rgb..<output_rgb + nat (width * height * 3)}"
  let ?P = "\<lambda>M. \<forall>a. a \<notin> ?O \<longrightarrow> M a = M0 a"
  let ?v = "\<lambda>a. stored_at M0 input width height channels (kernel_size sdiv 2) (a - output_rgb)"
  let ?body = "\<lambda>(y, x). for_below 0 3 (\<lambda>c M.
            case accumulate_color M input width height channels (kernel_size sdiv 2) x y c of
              (s, n) \<Rightarrow>
                (case c_div s n of
                   None \<Rightarrow> None
                 | Some q \<Rightarrow> Some (M(idx output_rgb (int32 (int32 (int32 (int32 (y * width) + x) * 3) + c)) := word_of_int q))))"
  let ?W = "\<lambda>(y, x). (\<lambda>c. idx output_rgb ((y * width + x) * 3 + c)) ` {0..2}"
  have s: "set (schedule (collapsed_iterations height width)) = {0..height - 1} \<times> {0..width - 1}"
    using sched by (simp add: schedule_of_def set_collapsed_iterations)
  have "\<exists>M'. for_each (schedule (collapsed_iterations height width)) ?body M0 = Some M' \<and> ?P M' \<and>
               writes M0 M' (\<Union>t\<in>set (schedule (collapsed_iterations height width)). ?W t) ?v"
  proof (rule for_each_writes [where P = ?P])
    fix t M assume t: "t \<in> set (schedule (collapsed_iterations height width))" and P: "?P M"
    obtain y x where yx: "t = (y, x)" by (cases t)
    with t s have b: "0 \<le> x" "x < width" "0 \<le> y" "y < height" by auto
    from pixel_color_writes [OF wf k b P]
    show "\<exists>M'. ?body t M = Some M' \<and> ?P M' \<and> writes M M' (?W t) ?v"
      by (simp only: yx prod.case)
  qed simp
  moreover have "(\<Union>t\<in>set (schedule (collapsed_iterations height width)). ?W t) = ?O"
    unfolding s by (rule output_cells_product [OF well_formedD(1) [OF wf]])
  ultimately show ?thesis
    unfolding apply_box_blur_openmp_def Let_def accumulate_backends
    by auto
qed

section \<open>Transfers between memories\<close>

lemma length_buffer [simp]: "length (buffer M p n) = n"
  by (simp add: buffer_def)

lemma nth_buffer [simp]: "i < n \<Longrightarrow> buffer M p n ! i = M (p + i)"
  by (simp add: buffer_def)

lemma store_buffer_inside:
  "p \<le> a \<Longrightarrow> a < p + length bs \<Longrightarrow> store_buffer M p bs a = bs ! (a - p)"
  by (simp add: store_buffer_def)

lemma store_buffer_outside:
  "a \<notin> {p..<p + length bs} \<Longrightarrow> store_buffer M p bs a = M a"
  by (auto simp: store_buffer_def)

lemma buffer_store_buffer:
  "length bs = n \<Longrightarrow> buffer (store_buffer M p bs) p n = bs"
  by (auto simp: list_eq_iff_nth_eq store_buffer_def)

lemma same_rgb_store_buffer:
  assumes "1 \<le> channels"
  shows "same_rgb M input (store_buffer D p (buffer M input (nat (width * height * channels)))) p
           width height channels"
  unfolding same_rgb_def
proof (intro ballI)
  fix q c assume "q \<in> {0..<width * height}" and "c \<in> {0..<min channels 3}"
  then have "0 \<le> q" "q < width * height" "0 \<le> c" "c < channels" by auto
  from index_in_bounds [OF this]
  have i: "0 \<le> q * channels + c" "q * channels + c < width * height * channels" .
  then have "nat (q * channels + c) < nat (width * height * channels)" by simp
  then show "M (idx input (q * channels + c)) =
      store_buffer D p (buffer M input (nat (width * height * channels))) (idx p (q * channels + c))"
    using i(1) by (simp add: idx_nonneg store_buffer_inside)
qed

lemma same_rgb_sym:
  "same_rgb M input M' input' width height channels \<Longrightarrow>
   same_rgb M' input' M input width height channels"
  by (simp add: same_rgb_def)

lemma same_rgb_trans:
  "same_rgb M input M' input' width height channels \<Longrightarrow>
   same_rgb M' input' M'' input'' width height channels \<Longrightarrow>
   same_rgb M input M'' input'' width height channels"
  by (simp add: same_rgb_def)

lemma same_rgb_buffer:
  assumes "buffer M input (nat (width * height * channels)) =
           buffer M' input' (nat (width * height * channels))"
    and "1 \<le> channels"
  shows "same_rgb M input M' input' width height channels"
proof -
  have "same_rgb M' input' (store_buffer M input (buffer M input (nat (width * height * channels)))) input
          width height channels"
    unfolding assms(1) by (rule same_rgb_store_buffer [OF assms(2)])
  moreover have "store_buffer M input (buffer M input n) = M" for n
    by (auto simp: store_buffer_def fun_eq_iff)
  ultimately show ?thesis by (simp add: same_rgb_sym)
qed

lemma same_rgb_stored_at:
  assumes "same_rgb M input M' input' width height channels" and "channels = 1 \<or> 3 \<le> channels"
  shows "stored_at M input width height channels k d = stored_at M' input' width height channels k d"
  unfolding stored_at_def Let_def
  by (simp add: same_rgb_average32 [OF assms(1) _ _ assms(2)])

lemma same_rgb_stored:
  assumes "same_rgb M input M' input' width height channels" and "channels = 1 \<or> 3 \<le> channels"
  shows "stored M input width height channels k = stored M' input' width height channels k"
  by (simp add: stored_def same_rgb_stored_at [OF assms])

lemma same_rgb_blurred:
  assumes "same_rgb M input M' input' width height channels" and "channels = 1 \<or> 3 \<le> channels"
  shows "blurred M input width height channels k = blurred M' input' width height channels k"
  unfolding blurred_def blurred_at_def Let_def
  by (simp add: same_rgb_window_average [OF assms(1) _ _ assms(2)])

text \<open>The sizes that the host functions compute, when they are representable.\<close>

lemma sizes_exact:
  assumes "0 < width" "0 < height" "1 \<le> channels"
    and "width * height * channels \<le> INT_MAX" "width * height * 3 \<le> INT_MAX"
  shows "int32 (int32 (width * height) * channels) = width * height * channels"
    and "int32 (int32 (width * height) * 3) = width * height * 3"
    and "size_t (int32 (int32 (width * height) * channels)) = nat (width * height * channels)"
    and "size_t (int32 (int32 (width * height) * 3)) = nat (width * height * 3)"
    and "int (size_t width) = width" and "int (size_t height) = height"
proof -
  have p: "0 \<le> width * height" using assms by simp
  then have q: "0 \<le> width * height * channels" "0 \<le> width * height * 3" using assms by simp_all
  show a: "int32 (int32 (width * height) * channels) = width * height * channels"
    using q assms(4) by (simp add: int32_nonneg_id)
  show b: "int32 (int32 (width * height) * 3) = width * height * 3"
    using q assms(5) by (simp add: int32_nonneg_id)
  show "size_t (int32 (int32 (width * height) * channels)) = nat (width * height * channels)"
    unfolding a using q(1) assms(4) by (rule size_t_id)
  show "size_t (int32 (int32 (width * height) * 3)) = nat (width * height * 3)"
    unfolding b using q(2) assms(5) by (rule size_t_id)
  note s = sizes_representable [OF assms(1-4)]
  show "int (size_t width) = width" using assms(1) s(1) by (simp add: size_t_id)
  show "int (size_t height) = height" using assms(2) s(2) by (simp add: size_t_id)
qed


section \<open>The result of the OpenCL backend\<close>

lemma output_cells_product_xy:
  assumes "0 < width"
  shows "(\<Union>(x, y)\<in>{0..width - 1} \<times> {0..height - 1}.
            (\<lambda>c. idx output_rgb ((y * width + x) * 3 + c)) ` {0..2}) =
         {output_rgb..<output_rgb + nat (width * height * 3)}"
proof -
  have "(\<Union>(x, y)\<in>A \<times> B. F y x) = (\<Union>y\<in>B. \<Union>x\<in>A. F y x)"
    for A B and F :: "int \<Rightarrow> int \<Rightarrow> addr set"
    by auto
  then show ?thesis
    by (simp only: output_cells [OF assms])
qed

lemma nd_range_writes:
  assumes wf: "well_formed input output width height channels"
    and k: "is_radius (kernel_size sdiv 2)"
    and sched: "schedule_of (nd_range width height) items"
  shows "\<exists>M'. for_each items
                 (\<lambda>gid M. box_blur_kernel_cl M input output width height channels kernel_size gid) M0 =
               Some M' \<and>
           writes M0 M' {output..<output + nat (width * height * 3)}
             (\<lambda>a. stored_at M0 input width height channels (kernel_size sdiv 2) (a - output))"
proof -
  let ?O = "{output..<output + nat (width * height * 3)}"
  let ?P = "\<lambda>M. \<forall>a. a \<notin> ?O \<longrightarrow> M a = M0 a"
  let ?v = "\<lambda>a. stored_at M0 input width height channels (kernel_size sdiv 2) (a - output)"
  let ?W = "\<lambda>(x, y). (\<lambda>c. idx output ((y * width + x) * 3 + c)) ` {0..2}"
  have ch1: "1 \<le> channels" using well_formedD(3) [OF wf] by auto
  note fits = sizes_representable [OF well_formedD(1,2) [OF wf] ch1 well_formedD(5) [OF wf]]
  have s: "set items = {0..width - 1} \<times> {0..height - 1}"
    using sched by (simp add: schedule_of_def nd_range_def)
  have "\<exists>M'. for_each items
                 (\<lambda>gid M. box_blur_kernel_cl M input output width height channels kernel_size gid) M0 =
               Some M' \<and> ?P M' \<and> writes M0 M' (\<Union>t\<in>set items. ?W t) ?v"
  proof (rule for_each_writes [where P = ?P])
    fix t M assume t: "t \<in> set items" and P: "?P M"
    obtain x y where xy: "t = (x, y)" by (cases t)
    with t s have b: "0 \<le> x" "x < width" "0 \<le> y" "y < height" by auto
    then have g: "\<not> (x \<ge> width \<or> y \<ge> height)" by simp
    have i: "int32 x = x" "int32 y = y"
      using b fits by (simp_all add: int32_nonneg_id)
    from pixel_color_writes [OF wf k b P]
    show "\<exists>M'. box_blur_kernel_cl M input output width height channels kernel_size t = Some M' \<and>
            ?P M' \<and> writes M M' (?W t) ?v"
      unfolding box_blur_kernel_cl_def Let_def accumulate_backends
      by (simp only: xy prod.case i g if_False)
  qed simp
  moreover have "(\<Union>t\<in>set items. ?W t) = ?O"
    unfolding s by (rule output_cells_product_xy [OF well_formedD(1) [OF wf]])
  ultimately show ?thesis by auto
qed

lemma length_stored [simp]:
  "length (stored M input width height channels k) = nat (width * height * 3)"
  by (simp add: stored_def)

lemma length_blurred [simp]:
  "length (blurred M input width height channels k) = nat (width * height * 3)"
  by (simp add: blurred_def)

lemma check_errors_success:
  "\<forall>e\<in>set es. fst e = CL_SUCCESS \<Longrightarrow> check_errors es = None"
  by (induction es rule: check_errors.induct) (auto simp: check_error_def)

text \<open>
  The launch is not refused for its sizes exactly when the width and the height are
  multiples of 16.
\<close>

lemma clEnqueueNDRangeKernel_sizes:
  assumes "0 \<le> width" "width \<le> INT_MAX" "0 \<le> height" "height \<le> INT_MAX"
  shows "clEnqueueNDRangeKernel rt [size_t width, size_t height] [16, 16] =
         (if width mod 16 = 0 \<and> height mod 16 = 0 then cl_err rt ''Executing kernel''
          else CL_INVALID_WORK_GROUP_SIZE)"
proof -
  have "0 < size_t n mod 16 \<longleftrightarrow> n mod 16 \<noteq> 0" if "0 \<le> n" "n \<le> INT_MAX" for n
  proof -
    have "int (size_t n mod 16) = n mod 16"
      using that by (simp add: size_t_id zmod_int)
    then show ?thesis by (metis of_nat_0_less_iff of_nat_eq_0_iff neq0_conv)
  qed
  with assms show ?thesis
    by (auto simp: clEnqueueNDRangeKernel_def)
qed

lemma apply_box_blur_opencl_result:
  assumes ok: "\<forall>operation. cl_err rt operation = CL_SUCCESS"
    and m16: "width mod 16 = 0" "height mod 16 = 0"
    and wf: "well_formed (d_input rt) (d_output rt) width height channels"
    and k: "is_radius (kernel_size sdiv 2)"
    and sched: "schedule_of (nd_range width height) (cl_schedule rt (nd_range width height))"
  shows "\<exists>H'. apply_box_blur_opencl rt H input_image output_image width height channels kernel_size =
                 Finished H' \<and>
           (\<forall>a. a \<notin> {output_image..<output_image + nat (width * height * 3)} \<longrightarrow> H' a = H a) \<and>
           buffer H' output_image (nat (width * height * 3)) =
             stored H input_image width height channels (kernel_size sdiv 2)"
proof -
  define D where "D = store_buffer (device_memory rt) (d_input rt)
                        (buffer H input_image (nat (width * height * channels)))"
  note ch = well_formedD(3) [OF wf]
  then have ch1: "1 \<le> channels" by auto
  note wh = well_formedD(1,2) [OF wf]
  note fits = sizes_representable [OF wh ch1 well_formedD(5) [OF wf]]
  note sz = sizes_exact [OF wh ch1 well_formedD(5,6) [OF wf]]
  from nd_range_writes [OF wf k sched, of D]
  obtain D' where D': "for_each (cl_schedule rt (nd_range width height))
                 (\<lambda>gid M. box_blur_kernel_cl M (d_input rt) (d_output rt) width height channels
                    kernel_size gid) D = Some D'"
    and w: "writes D D' {d_output rt..<d_output rt + nat (width * height * 3)}
             (\<lambda>a. stored_at D (d_input rt) width height channels (kernel_size sdiv 2) (a - d_output rt))"
    by blast
  define H' where "H' = store_buffer H output_image (buffer D' (d_output rt) (nat (width * height * 3)))"
  have "buffer D' (d_output rt) (nat (width * height * 3)) =
          stored D (d_input rt) width height channels (kernel_size sdiv 2)"
    using writes_buffer [OF w] by (simp add: stored_def)
  also have "\<dots> = stored H input_image width height channels (kernel_size sdiv 2)"
    unfolding D_def
    by (rule same_rgb_stored [OF same_rgb_sym [OF same_rgb_store_buffer [OF ch1]] ch])
  finally have b: "buffer H' output_image (nat (width * height * 3)) =
          stored H input_image width height channels (kernel_size sdiv 2)"
    by (simp add: H'_def buffer_store_buffer)
  have f: "\<forall>a. a \<notin> {output_image..<output_image + nat (width * height * 3)} \<longrightarrow> H' a = H a"
    by (simp add: H'_def store_buffer_outside)
  have launch: "clEnqueueNDRangeKernel rt [size_t width, size_t height] [16, 16] = CL_SUCCESS"
    using clEnqueueNDRangeKernel_sizes [of width height rt] wh fits m16 ok by simp
  have "apply_box_blur_opencl rt H input_image output_image width height channels kernel_size =
          Finished H'"
    unfolding apply_box_blur_opencl_def Let_def sz(3-6) launch
    using D' by (simp add: ok check_errors_success check_error_def D_def [symmetric] H'_def)
  with f b show ?thesis by blast
qed

text \<open>
  A width or a height that is not a multiple of 16 ends the run in \<open>check_error\<close>,
  at the launch or before it.
\<close>

lemma check_errors_last:
  assumes "err \<noteq> CL_SUCCESS"
  shows "\<exists>operation' err'. check_errors (es @ [(err, operation)]) = Some (operation', err')"
proof (induction es)
  case Nil
  show ?case using assms by (simp add: check_error_def)
next
  case (Cons e es)
  obtain err0 op0 where e: "e = (err0, op0)" by (cases e)
  show ?case
    using Cons by (cases "err0 = CL_SUCCESS") (simp_all add: e check_error_def)
qed

lemma apply_box_blur_opencl_refused:
  assumes "0 < width" "width \<le> INT_MAX" "0 < height" "height \<le> INT_MAX"
    and "width mod 16 \<noteq> 0 \<or> height mod 16 \<noteq> 0"
  shows "\<exists>operation err.
           apply_box_blur_opencl rt H input_image output_image width height channels kernel_size =
             Exited operation err"
proof -
  have launch: "clEnqueueNDRangeKernel rt [size_t width, size_t height] [16, 16] =
      CL_INVALID_WORK_GROUP_SIZE"
    using clEnqueueNDRangeKernel_sizes [of width height rt] assms by auto
  have n: "CL_INVALID_WORK_GROUP_SIZE \<noteq> CL_SUCCESS"
    by (simp add: CL_INVALID_WORK_GROUP_SIZE_def CL_SUCCESS_def)
  from check_errors_last [OF n, of
      "[(cl_err rt ''Getting platform'', ''Getting platform''),
         (if gpu_err rt \<noteq> CL_SUCCESS then cl_err rt ''Getting device'' else CL_SUCCESS,
          ''Getting device''),
         (cl_err rt ''Creating context'', ''Creating context''),
         (cl_err rt ''Creating command queue'', ''Creating command queue''),
         (cl_err rt ''Creating program'', ''Creating program''),
         (cl_err rt ''Building program'', ''Building program''),
         (cl_err rt ''Creating kernel'', ''Creating kernel''),
         (cl_err rt ''Creating input buffer'', ''Creating input buffer''),
         (cl_err rt ''Creating output buffer'', ''Creating output buffer''),
         (cl_err rt ''Copying input to device'', ''Copying input to device''),
         (cl_err rt ''Setting kernel arguments'', ''Setting kernel arguments'')]"
      "''Executing kernel''"]
  obtain operation err where "check_errors
        [(cl_err rt ''Getting platform'', ''Getting platform''),
         (if gpu_err rt \<noteq> CL_SUCCESS then cl_err rt ''Getting device'' else CL_SUCCESS,
          ''Getting device''),
         (cl_err rt ''Creating context'', ''Creating context''),
         (cl_err rt ''Creating command queue'', ''Creating command queue''),
         (cl_err rt ''Creating program'', ''Creating program''),
         (cl_err rt ''Building program'', ''Building program''),
         (cl_err rt ''Creating kernel'', ''Creating kernel''),
         (cl_err rt ''Creating input buffer'', ''Creating input buffer''),
         (cl_err rt ''Creating output buffer'', ''Creating output buffer''),
         (cl_err rt ''Copying input to device'', ''Copying input to device''),
         (cl_err rt ''Setting kernel arguments'', ''Setting kernel arguments''),
         (CL_INVALID_WORK_GROUP_SIZE, ''Executing kernel'')] = Some (operation, err)"
    by (simp only: append.simps) blast
  then show ?thesis
    unfolding apply_box_blur_opencl_def Let_def launch by simp
qed


section \<open>The result of the CUDA backend\<close>

lemma gridSize_exact:
  assumes "0 < extent" "extent \<le> INT_MAX" "1 \<le> blockDim" "blockDim \<le> 32"
  shows "gridSize extent blockDim = (extent + blockDim - 1) div blockDim"
proof -
  have "uint32 (extent + blockDim - 1) = extent + blockDim - 1"
    unfolding uint32_def using assms by (intro mod_pos_pos_trivial) (simp_all add: INT_MAX_def)
  moreover have "uint32 blockDim = blockDim"
    unfolding uint32_def using assms by (intro mod_pos_pos_trivial) simp_all
  ultimately show ?thesis by (simp add: gridSize_def)
qed

lemma gridSize_covers:
  assumes "0 \<le> x" "x < extent" "extent \<le> INT_MAX" "1 \<le> blockDim" "blockDim \<le> 32"
  shows "0 \<le> x div blockDim" "x div blockDim \<le> gridSize extent blockDim - 1"
    "0 \<le> x mod blockDim" "x mod blockDim \<le> blockDim - 1"
    "x div blockDim * blockDim + x mod blockDim = x"
proof -
  show "0 \<le> x div blockDim" using assms by (simp add: pos_imp_zdiv_nonneg_iff)
  have "gridSize extent blockDim = (extent - 1 + blockDim) div blockDim"
    using assms gridSize_exact [of extent blockDim] by (simp add: algebra_simps)
  also have "\<dots> = (extent - 1) div blockDim + 1"
    by (rule div_add_self2) (use assms in auto)
  finally have g: "gridSize extent blockDim - 1 = (extent - 1) div blockDim" by simp
  show "x div blockDim \<le> gridSize extent blockDim - 1"
    unfolding g using assms by (intro zdiv_mono1) auto
  show "0 \<le> x mod blockDim" "x mod blockDim \<le> blockDim - 1"
    using assms by simp_all
  show "x div blockDim * blockDim + x mod blockDim = x" by simp
qed

text \<open>The coordinate of a thread of the grid is a value of type \<open>int\<close>.\<close>

lemma grid_coordinate:
  assumes e: "0 < extent" "extent * 3 \<le> INT_MAX" and bd: "1 \<le> blockDim" "blockDim \<le> 32"
    and b: "0 \<le> b" "b \<le> gridSize extent blockDim - 1" and t: "0 \<le> t" "t \<le> blockDim - 1"
  shows "0 \<le> b * blockDim + t" and "int32 (uint32 (b * blockDim + t)) = b * blockDim + t"
proof -
  have e': "extent \<le> INT_MAX" using e by simp
  define a where "a = extent + blockDim - 1"
  define g where "g = a div blockDim"
  have g: "gridSize extent blockDim = g"
    unfolding g_def a_def by (rule gridSize_exact [OF e(1) e' bd])
  have "blockDim * g + a mod blockDim = a" by (simp add: g_def)
  moreover have "0 \<le> a mod blockDim" using bd by simp
  ultimately have ga: "g * blockDim \<le> a" by (simp add: mult.commute)
  have "b * blockDim \<le> (g - 1) * blockDim"
    using b bd by (intro mult_right_mono) (simp_all add: g)
  then have "b * blockDim + t \<le> g * blockDim - 1"
    using t by (simp add: algebra_simps)
  with ga have u: "b * blockDim + t \<le> INT_MAX"
    using e(2) bd by (simp add: a_def INT_MAX_def)
  show l: "0 \<le> b * blockDim + t" using b bd t by simp
  show "int32 (uint32 (b * blockDim + t)) = b * blockDim + t"
    using l u by (simp add: int32_nonneg_id)
qed

lemma rgb_extent:
  assumes "well_formed input output width height channels"
  shows "width * 3 \<le> INT_MAX" "height * 3 \<le> INT_MAX"
proof -
  note w = well_formedD [OF assms]
  have "width * 1 \<le> width * height" using w(1,2) by (intro mult_left_mono) auto
  then have "width * 3 \<le> width * height * 3" by simp
  with w(6) show "width * 3 \<le> INT_MAX" by simp
  have "1 * height \<le> width * height" using w(1,2) by (intro mult_right_mono) auto
  then have "height * 3 \<le> width * height * 3" by simp
  with w(6) show "height * 3 \<le> INT_MAX" by simp
qed

lemma cuda_grid_writes:
  assumes wf: "well_formed input output width height channels"
    and k: "is_radius (kernelSize sdiv 2)"
    and bd: "1 \<le> blockDim" "blockDim \<le> 32"
    and sched: "schedule_of (cuda_grid (gridSize width blockDim) (gridSize height blockDim) blockDim) threads"
  shows "\<exists>M'. for_each threads
                 (\<lambda>t M. box_blur_kernel_cuda M input output width height channels kernelSize blockDim t) M0 =
               Some M' \<and>
           writes M0 M' {output..<output + nat (width * height * 3)}
             (\<lambda>a. stored_at M0 input width height channels (kernelSize sdiv 2) (a - output))"
proof -
  let ?O = "{output..<output + nat (width * height * 3)}"
  let ?P = "\<lambda>M. \<forall>a. a \<notin> ?O \<longrightarrow> M a = M0 a"
  let ?v = "\<lambda>a. stored_at M0 input width height channels (kernelSize sdiv 2) (a - output)"
  let ?W3 = "\<lambda>y x. (\<lambda>c. idx output ((y * width + x) * 3 + c)) ` {0..2}"
  let ?W = "\<lambda>(bx, by, tx, ty).
              if bx * blockDim + tx < width \<and> by * blockDim + ty < height
              then ?W3 (by * blockDim + ty) (bx * blockDim + tx) else {}"
  note wh = well_formedD(1,2) [OF wf] and ext = rgb_extent [OF wf]
  have fits: "width \<le> INT_MAX" "height \<le> INT_MAX" using ext wh by simp_all
  have s: "set threads = {0..gridSize width blockDim - 1} \<times> ({0..gridSize height blockDim - 1} \<times>
             ({0..blockDim - 1} \<times> {0..blockDim - 1}))"
    using sched by (simp add: schedule_of_def cuda_grid_def)
  have "\<exists>M'. for_each threads
                 (\<lambda>t M. box_blur_kernel_cuda M input output width height channels kernelSize blockDim t) M0 =
               Some M' \<and> ?P M' \<and> writes M0 M' (\<Union>t\<in>set threads. ?W t) ?v"
  proof (rule for_each_writes [where P = ?P])
    fix t M assume t: "t \<in> set threads" and P: "?P M"
    obtain bx "by" tx ty where q: "t = (bx, by, tx, ty)" by (cases t) auto
    with t s have g: "0 \<le> bx" "bx \<le> gridSize width blockDim - 1" "0 \<le> tx" "tx \<le> blockDim - 1"
      "0 \<le> by" "by \<le> gridSize height blockDim - 1" "0 \<le> ty" "ty \<le> blockDim - 1"
      by auto
    note cx = grid_coordinate [OF wh(1) ext(1) bd g(1-4)]
      and cy = grid_coordinate [OF wh(2) ext(2) bd g(5-8)]
    show "\<exists>M'. box_blur_kernel_cuda M input output width height channels kernelSize blockDim t = Some M' \<and>
            ?P M' \<and> writes M M' (?W t) ?v"
    proof (cases "bx * blockDim + tx < width \<and> by * blockDim + ty < height")
      case True
      then have b: "0 \<le> bx * blockDim + tx" "bx * blockDim + tx < width"
        "0 \<le> by * blockDim + ty" "by * blockDim + ty < height"
        using cx(1) cy(1) by simp_all
      from pixel_color_writes [OF wf k b P] True show ?thesis
        unfolding box_blur_kernel_cuda_def Let_def accumulate_backends
        by (simp only: q prod.case cx(2) cy(2) simp_thms if_True)
    next
      case False
      have "box_blur_kernel_cuda M input output width height channels kernelSize blockDim t = Some M"
        unfolding box_blur_kernel_cuda_def Let_def
        by (simp only: q prod.case cx(2) cy(2) False if_False)
      moreover have "?W t = {}"
        by (simp only: q prod.case False if_False)
      moreover have "writes M M {} ?v"
        by (simp add: writes_def)
      ultimately show ?thesis using P by simp
    qed
  qed simp
  moreover have "(\<Union>t\<in>set threads. ?W t) = ?O"
  proof (intro equalityI subsetI)
    fix a assume "a \<in> (\<Union>t\<in>set threads. ?W t)"
    then obtain bx "by" tx ty where t: "(bx, by, tx, ty) \<in> set threads"
      and a: "a \<in> ?W (bx, by, tx, ty)" by auto
    from t s bd have n: "0 \<le> bx * blockDim + tx" "0 \<le> by * blockDim + ty" by auto
    from a have b: "bx * blockDim + tx < width" "by * blockDim + ty < height"
      by (auto split: if_splits)
    from a b obtain c where "0 \<le> c" "c < 3"
      "a = idx output (((by * blockDim + ty) * width + (bx * blockDim + tx)) * 3 + c)" by auto
    then show "a \<in> ?O"
      using dst_in_output [OF n(1) b(1) n(2) b(2)] by simp
  next
    fix a assume "a \<in> ?O"
    then have "a \<in> (\<Union>y\<in>{0..height - 1}. \<Union>x\<in>{0..width - 1}. ?W3 y x)"
      by (simp only: output_cells [OF well_formedD(1) [OF wf]])
    then obtain x y where b: "0 \<le> x" "x < width" "0 \<le> y" "y < height" and a: "a \<in> ?W3 y x"
      by auto
    note gx = gridSize_covers [OF b(1,2) fits(1) bd] and gy = gridSize_covers [OF b(3,4) fits(2) bd]
    have "(x div blockDim, y div blockDim, x mod blockDim, y mod blockDim) \<in> set threads"
      unfolding s using gx(1-4) gy(1-4) by simp
    moreover have "a \<in> ?W (x div blockDim, y div blockDim, x mod blockDim, y mod blockDim)"
      using a b by (simp only: prod.case gx(5) gy(5)) simp
    ultimately show "a \<in> (\<Union>t\<in>set threads. ?W t)" by blast
  qed
  ultimately show ?thesis by auto
qed

lemma launch_accepted_blockDim:
  "launch_accepted gx gy blockDim \<Longrightarrow> 1 \<le> blockDim \<and> blockDim \<le> 32"
proof -
  assume "launch_accepted gx gy blockDim"
  then have b: "0 < blockDim" "blockDim * blockDim \<le> 1024" by (simp_all add: launch_accepted_def)
  have "blockDim \<le> 32"
  proof (rule ccontr)
    assume "\<not> blockDim \<le> 32"
    then have "33 \<le> blockDim" by simp
    then have "33 * 33 \<le> blockDim * blockDim" by (intro mult_mono) auto
    with b(2) show False by simp
  qed
  with b(1) show ?thesis by simp
qed

lemma cuda_box_blur_result:
  assumes ok: "\<forall>call. cu_err rt call = cudaSuccess"
    and la: "launch_accepted (gridSize width blockDim) (gridSize height blockDim) blockDim"
    and wf: "well_formed (cu_d_input rt) (cu_d_output rt) width height channels"
    and k: "is_radius (kernelSize sdiv 2)"
    and sched: "schedule_of (cuda_grid (gridSize width blockDim) (gridSize height blockDim) blockDim)
                  (cu_schedule rt (cuda_grid (gridSize width blockDim) (gridSize height blockDim) blockDim))"
  shows "\<exists>H'. cuda_box_blur rt H h_input h_output width height channels kernelSize blockDim = Some H' \<and>
           (\<forall>a. a \<notin> {h_output..<h_output + nat (width * height * 3)} \<longrightarrow> H' a = H a) \<and>
           buffer H' h_output (nat (width * height * 3)) =
             stored H h_input width height channels (kernelSize sdiv 2)"
proof -
  define D where "D = store_buffer (cu_device_memory rt) (cu_d_input rt)
                        (buffer H h_input (nat (width * height * channels)))"
  note ch = well_formedD(3) [OF wf]
  then have ch1: "1 \<le> channels" by auto
  note wh = well_formedD(1,2) [OF wf]
  note sz = sizes_exact [OF wh ch1 well_formedD(5,6) [OF wf]]
  from launch_accepted_blockDim [OF la] have bd: "1 \<le> blockDim" "blockDim \<le> 32" by simp_all
  from cuda_grid_writes [OF wf k bd sched, of D]
  obtain D' where D': "for_each (cu_schedule rt (cuda_grid (gridSize width blockDim) (gridSize height blockDim) blockDim))
                 (\<lambda>t M. box_blur_kernel_cuda M (cu_d_input rt) (cu_d_output rt) width height channels
                    kernelSize blockDim t) D = Some D'"
    and w: "writes D D' {cu_d_output rt..<cu_d_output rt + nat (width * height * 3)}
             (\<lambda>a. stored_at D (cu_d_input rt) width height channels (kernelSize sdiv 2) (a - cu_d_output rt))"
    by blast
  define H' where "H' = store_buffer H h_output (buffer D' (cu_d_output rt) (nat (width * height * 3)))"
  have "buffer D' (cu_d_output rt) (nat (width * height * 3)) =
          stored D (cu_d_input rt) width height channels (kernelSize sdiv 2)"
    using writes_buffer [OF w] by (simp add: stored_def)
  also have "\<dots> = stored H h_input width height channels (kernelSize sdiv 2)"
    unfolding D_def
    by (rule same_rgb_stored [OF same_rgb_sym [OF same_rgb_store_buffer [OF ch1]] ch])
  finally have b: "buffer H' h_output (nat (width * height * 3)) =
          stored H h_input width height channels (kernelSize sdiv 2)"
    by (simp add: H'_def buffer_store_buffer)
  have f: "\<forall>a. a \<notin> {h_output..<h_output + nat (width * height * 3)} \<longrightarrow> H' a = H a"
    by (simp add: H'_def store_buffer_outside)
  have "cuda_box_blur rt H h_input h_output width height channels kernelSize blockDim = Some H'"
    unfolding cuda_box_blur_def Let_def sz(3,4)
    using D' by (simp add: ok la D_def [symmetric] H'_def)
  with f b show ?thesis by blast
qed


section \<open>The rows of one process\<close>

lemma stored_at_local_cell:
  assumes "0 \<le> x" "x < width" "0 \<le> s" "s \<le> y" "0 \<le> c" "c < 3"
  shows "stored_at M input width height channels k
           (idx my_out (((y - s) * width + x) * 3 + c) - my_out + nat (s * width * 3)) =
         word_of_int (average32 M input width height channels k x y c)"
proof -
  have l: "0 \<le> ((y - s) * width + x) * 3 + c" using assms by simp
  have g: "0 \<le> s * width * 3" using assms by simp
  have "idx my_out (((y - s) * width + x) * 3 + c) - my_out + nat (s * width * 3) =
          nat (((y - s) * width + x) * 3 + c) + nat (s * width * 3)"
    using l by (simp add: idx_nonneg)
  also have "\<dots> = nat ((((y - s) * width + x) * 3 + c) + s * width * 3)"
    using l g by (simp only: nat_add_distrib)
  also have "(((y - s) * width + x) * 3 + c) + s * width * 3 = (y * width + x) * 3 + c"
    by (simp add: algebra_simps)
  finally show ?thesis
    using stored_at_dst [of x width y c M input height channels k] assms by simp
qed

lemma local_cells:
  assumes "0 < width"
  shows "(\<Union>y\<in>{s..e - 1}. \<Union>x\<in>{0..width - 1}.
            (\<lambda>c. idx my_out (((y - s) * width + x) * 3 + c)) ` {0..2}) =
         {my_out..<my_out + nat (width * (e - s) * 3)}"
proof -
  have "(\<Union>y\<in>{s..e - 1}. F (y - s)) = (\<Union>y\<in>{0..e - s - 1}. F y)" for F :: "int \<Rightarrow> addr set"
  proof (intro equalityI subsetI)
    fix a assume "a \<in> (\<Union>y\<in>{s..e - 1}. F (y - s))"
    then obtain y where "s \<le> y" "y \<le> e - 1" "a \<in> F (y - s)" by auto
    then show "a \<in> (\<Union>y\<in>{0..e - s - 1}. F y)" by (intro UN_I [of "y - s"]) auto
  next
    fix a assume "a \<in> (\<Union>y\<in>{0..e - s - 1}. F y)"
    then obtain y where "0 \<le> y" "y \<le> e - s - 1" "a \<in> F y" by auto
    then show "a \<in> (\<Union>y\<in>{s..e - 1}. F (y - s))" by (intro UN_I [of "y + s"]) auto
  qed
  from this [of "\<lambda>y. \<Union>x\<in>{0..width - 1}. (\<lambda>c. idx my_out ((y * width + x) * 3 + c)) ` {0..2}"]
  show ?thesis
    by (simp only: output_cells [OF assms])
qed

lemma apply_box_blur_mpi_writes:
  assumes w: "0 < width" and ch: "channels = 1 \<or> 3 \<le> channels"
    and sep: "separate input (nat (width * height * channels)) my_out (nat (width * (e - s) * 3))"
    and k: "is_radius (kernel_size sdiv 2)"
    and rows: "0 \<le> s" "e \<le> height"
    and rep: "width * height * channels \<le> INT_MAX" "width * height * 3 \<le> INT_MAX"
  shows "\<exists>M'. apply_box_blur_mpi M0 input my_out width height channels kernel_size s e = Some M' \<and>
           writes M0 M' {my_out..<my_out + nat (width * (e - s) * 3)}
             (\<lambda>a. stored_at M0 input width height channels (kernel_size sdiv 2)
                    (a - my_out + nat (s * width * 3)))"
proof -
  let ?O = "{my_out..<my_out + nat (width * (e - s) * 3)}"
  let ?P = "\<lambda>M. \<forall>a. a \<notin> ?O \<longrightarrow> M a = M0 a"
  let ?v = "\<lambda>a. stored_at M0 input width height channels (kernel_size sdiv 2)
                    (a - my_out + nat (s * width * 3))"
  let ?pixel = "\<lambda>y x. for_below 0 3 (\<lambda>c M.
            case accumulate_color M input width height channels (kernel_size sdiv 2) x y c of
              (s', n) \<Rightarrow>
                (case c_div s' n of
                   None \<Rightarrow> None
                 | Some q \<Rightarrow> Some (M(idx my_out
                     (int32 (int32 (int32 (int32 (int32 (y - s) * width) + x) * 3) + c)) := word_of_int q))))"
  let ?W = "\<lambda>y x. (\<lambda>c. idx my_out (((y - s) * width + x) * 3 + c)) ` {0..2}"
  have pixel: "\<exists>M'. ?pixel y x M = Some M' \<and> ?P M' \<and> writes M M' (?W y x) ?v"
    if x: "x \<in> set [0..width - 1]" and y: "y \<in> set [s..e - 1]" and P: "?P M" for x y M
  proof -
    from x y rows have b: "0 \<le> x" "x < width" "0 \<le> y" "y < height" by auto
    from y have l: "0 \<le> y - s" "y - s < e - s" "s \<le> y" by auto
    have es: "e - s \<le> height" using rows by simp
    have "width * (e - s) \<le> width * height" using w es by (intro mult_left_mono) auto
    then have rep3: "width * (e - s) * 3 \<le> INT_MAX" using rep(2) by simp
    have "1 * height \<le> width * height" using w b by (intro mult_right_mono) auto
    moreover have "0 \<le> width * height" using w b by simp
    ultimately have "height \<le> INT_MAX" using rep(2) by linarith
    then have ly: "int32 (y - s) = y - s"
      using l es by (intro int32_nonneg_id) simp_all
    show ?thesis
      unfolding ly pixel_exact [OF b(1,2) l(1,2) rep3]
    proof (rule pixel_writes [where P = ?P and a = "\<lambda>c. idx my_out (((y - s) * width + x) * 3 + c)"
            and ?M0.0 = M0, OF b k ch rep(1)])
      fix M assume "?P M"
      then show "same_rgb M0 input M input width height channels"
        by (rule frame_same_rgb [OF sep _ ch])
    next
      fix M :: mem and c :: int and q
      assume "?P M" and "0 \<le> c" "c < 3"
      then show "?P (M(idx my_out (((y - s) * width + x) * 3 + c) := q))"
        using dst_in_output [OF b(1,2) l(1,2), of c my_out] by auto
    next
      fix c :: int assume "0 \<le> c" "c < 3"
      then show "?v (idx my_out (((y - s) * width + x) * 3 + c)) =
          word_of_int (average32 M0 input width height channels (kernel_size sdiv 2) x y c)"
        by (rule stored_at_local_cell [OF b(1,2) rows(1) l(3)])
    qed (rule P)
  qed
  have row: "\<exists>M'. for_each [0..width - 1] (?pixel y) M = Some M' \<and> ?P M' \<and>
               writes M M' (\<Union>x\<in>set [0..width - 1]. ?W y x) ?v"
    if "y \<in> set [s..e - 1]" "?P M" for y M
    by (rule for_each_writes [where P = ?P, OF _ that(2)]) (use pixel that(1) in blast)
  have "\<exists>M'. for_each [s..e - 1] (\<lambda>y. for_each [0..width - 1] (?pixel y)) M0 = Some M' \<and> ?P M' \<and>
               writes M0 M' (\<Union>y\<in>set [s..e - 1]. \<Union>x\<in>set [0..width - 1]. ?W y x) ?v"
    by (rule for_each_writes [where P = ?P]) (use row in auto)
  moreover have "(\<Union>y\<in>set [s..e - 1]. \<Union>x\<in>set [0..width - 1]. ?W y x) = ?O"
    using local_cells [OF w] by (simp only: set_upto)
  ultimately show ?thesis
    unfolding apply_box_blur_mpi_def Let_def for_below_eq [of s e] for_below_eq [of 0 width]
      accumulate_backends
    by auto
qed

section \<open>The messages of the gather\<close>

lemma those_map_Some:
  assumes "\<forall>x\<in>set xs. \<exists>y. f x = Some y \<and> Q x y"
  shows "\<exists>ys. those (map f xs) = Some ys \<and> length ys = length xs \<and>
           (\<forall>i<length xs. Q (xs ! i) (ys ! i))"
  using assms
proof (induction xs)
  case Nil
  then show ?case by simp
next
  case (Cons x xs)
  then obtain y where y: "f x = Some y" "Q x y" by auto
  from Cons obtain ys where ys: "those (map f xs) = Some ys" "length ys = length xs"
    "\<forall>i<length xs. Q (xs ! i) (ys ! i)" by auto
  have "\<forall>i<length (x # xs). Q ((x # xs) ! i) ((y # ys) ! i)"
    using y(2) ys(3) by (auto simp: nth_Cons split: nat.splits)
  with y(1) ys(1,2) show ?case
    by (intro exI [of _ "y # ys"]) simp
qed

lemma cells_buffer:
  assumes "\<forall>a\<in>{p..<p + n}. M' a = f (a - p)"
  shows "buffer M' p n = map f [0..<n]"
  using assms by (simp add: buffer_def)

lemma writes_store_buffer:
  assumes "\<And>j. j < length bs \<Longrightarrow> bs ! j = v (p + j)"
  shows "writes M (store_buffer M p bs) {p..<p + length bs} v"
  unfolding writes_def
proof (intro conjI allI ballI impI)
  fix a assume "a \<notin> {p..<p + length bs}"
  then show "store_buffer M p bs a = M a" by (rule store_buffer_outside)
next
  fix a assume a: "a \<in> {p..<p + length bs}"
  then have "store_buffer M p bs a = bs ! (a - p)" by (simp add: store_buffer_inside)
  also have "\<dots> = v (p + (a - p))" using a by (intro assms) auto
  finally show "store_buffer M p bs a = v a" using a by simp
qed

lemma my_rows_nonneg:
  assumes "0 \<le> height" "1 \<le> nproc" "0 \<le> rank" "rank < nproc"
  shows "0 \<le> start_row height nproc rank" "start_row height nproc rank \<le> end_row height nproc rank"
    "end_row height nproc rank \<le> height" "0 \<le> my_rows height nproc rank"
proof -
  show "0 \<le> start_row height nproc rank"
    using start_row_mono [OF assms(1,2), of 0 rank] assms(3) by (simp add: start_row_def)
  show s: "start_row height nproc rank \<le> end_row height nproc rank"
    by (rule start_le_end_row [OF assms(1,2,4)])
  show "end_row height nproc rank \<le> height"
    by (rule end_row_le_height [OF assms(1,2,4)])
  show "0 \<le> my_rows height nproc rank" using s by (simp add: my_rows_def)
qed

text \<open>
  The counts and the displacements of the gather do not wrap when the output size is
  representable.
\<close>

lemma row_bytes_exact:
  assumes "0 \<le> r" "r \<le> height" "0 < width" "width * height * 3 \<le> INT_MAX"
  shows "int32 (int32 (r * width) * 3) = r * width * 3"
    and "0 \<le> r * width * 3" and "r * width * 3 \<le> width * height * 3"
proof -
  have "r * width \<le> height * width" using assms by (intro mult_right_mono) auto
  then show u: "r * width * 3 \<le> width * height * 3" by (simp add: mult.commute)
  show l: "0 \<le> r * width * 3" using assms by simp
  from l u assms(4) have "int32 (r * width * 3) = r * width * 3"
    by (intro int32_nonneg_id) simp_all
  then show "int32 (int32 (r * width) * 3) = r * width * 3" by simp
qed

lemma recv_counts_eq:
  assumes "0 \<le> height" "1 \<le> nproc" "0 \<le> i" "i < nproc" "0 < width" "width * height * 3 \<le> INT_MAX"
  shows "recv_counts width height nproc i = my_rows height nproc i * width * 3"
proof -
  note rows = my_rows_nonneg [OF assms(1-4)]
  have "my_rows height nproc i \<le> height" using rows by (simp add: my_rows_def)
  have e: "recv_counts width height nproc i = int32 (int32 (my_rows height nproc i * width) * 3)"
    by (simp add: recv_counts_def my_rows_def end_row_def start_row_def Let_def)
  show ?thesis
    unfolding e by (rule row_bytes_exact(1) [OF rows(4) \<open>my_rows height nproc i \<le> height\<close> assms(5,6)])
qed

lemma send_count_eq:
  assumes "0 \<le> height" "1 \<le> nproc" "0 \<le> i" "i < nproc" "0 < width" "width * height * 3 \<le> INT_MAX"
  shows "send_count width height nproc i = my_rows height nproc i * width * 3"
proof -
  note rows = my_rows_nonneg [OF assms(1-4)]
  have "my_rows height nproc i \<le> height" using rows by (simp add: my_rows_def)
  show ?thesis
    unfolding send_count_def
    by (rule row_bytes_exact(1) [OF rows(4) \<open>my_rows height nproc i \<le> height\<close> assms(5,6)])
qed

lemma displs_eq:
  assumes "0 \<le> height" "1 \<le> nproc" "0 \<le> i" "i < nproc" "0 < width" "width * height * 3 \<le> INT_MAX"
  shows "displs width height nproc i = start_row height nproc i * width * 3"
proof -
  note rows = my_rows_nonneg [OF assms(1-4)]
  have "start_row height nproc i \<le> height" using rows by simp
  have e: "displs width height nproc i = int32 (int32 (start_row height nproc i * width) * 3)"
    by (simp add: displs_def start_row_def Let_def)
  show ?thesis
    unfolding e by (rule row_bytes_exact(1) [OF rows(1) \<open>start_row height nproc i \<le> height\<close> assms(5,6)])
qed


section \<open>The computation of one process\<close>

lemma mpi_well_formedD:
  assumes "mpi_well_formed procs width height channels"
  shows "procs \<noteq> []" "0 < width" "0 < height" "channels = 1 \<or> 3 \<le> channels"
    "width * height * channels \<le> INT_MAX" "width * height * 3 \<le> INT_MAX"
    "\<And>rank. rank < length procs \<Longrightarrow>
       input_rgb (procs ! rank) \<noteq> None \<and> my_output (procs ! rank) \<noteq> None \<and>
       separate (the (input_rgb (procs ! rank))) (nat (width * height * channels))
         (the (my_output (procs ! rank)))
         (nat (width * my_rows height (int (length procs)) (int rank) * 3))"
  using assms by (auto simp: mpi_well_formed_def representable_def)

lemma mpi_compute_cells:
  assumes wf: "mpi_well_formed procs width height channels"
    and k: "is_radius (kernel_size sdiv 2)"
    and r: "rank < length procs"
  shows "\<exists>M'. mpi_compute (procs ! rank)
                 (buffer (memory (procs ! 0)) (the (input_rgb (procs ! 0))) (nat (width * height * channels)))
                 width height channels kernel_size (int (length procs)) (int rank) = Some M' \<and>
           (\<forall>j<nat (my_rows height (int (length procs)) (int rank) * width * 3).
              M' (the (my_output (procs ! rank)) + j) =
                stored_at (memory (procs ! 0)) (the (input_rgb (procs ! 0))) width height channels
                  (kernel_size sdiv 2)
                  (j + nat (start_row height (int (length procs)) (int rank) * width * 3)))"
proof -
  define N where "N = int (length procs)"
  define P where "P = procs ! rank"
  define inp out where "inp = the (input_rgb P)" and "out = the (my_output P)"
  define root where "root = the (input_rgb (procs ! 0))"
  define img where "img = buffer (memory (procs ! 0)) root (nat (width * height * channels))"
  define M0 where "M0 = store_buffer (memory P) inp img"
  define s e where "s = start_row height N (int rank)" and "e = end_row height N (int rank)"
  note D = mpi_well_formedD [OF wf]
  note w = D(2) and h = D(3) and ch = D(4) and rep = D(5,6)
  have sep: "separate inp (nat (width * height * channels)) out
                (nat (width * my_rows height N (int rank) * 3))"
    using D(7) [OF r] by (simp add: N_def P_def inp_def out_def)
  have ch1: "1 \<le> channels" using ch by auto
  have N: "1 \<le> N" "int rank < N" "0 \<le> int rank" using r by (simp_all add: N_def)
  have h0: "0 \<le> height" using h by simp
  note rows = my_rows_nonneg [OF h0 N(1,3,2)]
  have m: "my_rows height N (int rank) = e - s" by (simp add: my_rows_def s_def e_def)
  from apply_box_blur_mpi_writes [OF w ch sep [unfolded m] k rows(1) [folded s_def]
      rows(3) [folded e_def] rep, of M0]
  obtain M' where M': "apply_box_blur_mpi M0 inp out width height channels kernel_size s e = Some M'"
    and wr: "writes M0 M' {out..<out + nat (width * (e - s) * 3)}
             (\<lambda>a. stored_at M0 inp width height channels (kernel_size sdiv 2)
                    (a - out + nat (s * width * 3)))"
    by blast
  have same: "same_rgb M0 inp (memory (procs ! 0)) root width height channels"
    unfolding M0_def img_def by (rule same_rgb_sym [OF same_rgb_store_buffer [OF ch1]])
  have "M' (out + j) =
          stored_at (memory (procs ! 0)) root width height channels
            (kernel_size sdiv 2) (j + nat (s * width * 3))"
    if "j < nat ((e - s) * width * 3)" for j
  proof -
    have "out + j \<in> {out..<out + nat (width * (e - s) * 3)}"
      using that by (simp add: mult.commute mult.left_commute)
    with wr have "M' (out + j) =
        stored_at M0 inp width height channels (kernel_size sdiv 2) (j + nat (s * width * 3))"
      by (simp add: writes_def)
    then show ?thesis by (simp only: same_rgb_stored_at [OF same ch])
  qed
  with M' show ?thesis
    unfolding mpi_compute_def N_def [symmetric] P_def [symmetric] inp_def [symmetric]
      out_def [symmetric] root_def [symmetric] img_def [symmetric]
      M0_def [symmetric] s_def [symmetric] e_def [symmetric] m
    by blast
qed

section \<open>The result of the distributed backend\<close>

lemma byte_has_owner:
  assumes h: "0 < height" and w: "0 < width" and n: "1 \<le> N"
    and d: "d < nat (width * height * 3)"
  shows "\<exists>i. 0 \<le> i \<and> i < N \<and>
           nat (start_row height N i * width * 3) \<le> d \<and>
           d < nat (start_row height N i * width * 3) + nat (my_rows height N i * width * 3)"
proof -
  define r where "r = int d div (width * 3)"
  have w3: "0 < width * 3" using w by simp
  have d': "int d < height * (width * 3)" using d by (simp add: mult.commute mult.left_commute)
  have r: "0 \<le> r" "r < height"
    using int_div_less [OF d' w3] w3 by (simp_all add: r_def pos_imp_zdiv_nonneg_iff)
  have e: "(width * 3) * r + int d mod (width * 3) = int d" by (simp add: r_def)
  have md: "0 \<le> int d mod (width * 3)" "int d mod (width * 3) < width * 3" using w3 by simp_all
  have lo: "r * (width * 3) \<le> int d" using e md by (simp add: mult.commute)
  have hi: "int d < (r + 1) * (width * 3)"
  proof -
    have "int d < (width * 3) * r + width * 3" using e md by linarith
    then show ?thesis by (simp add: algebra_simps)
  qed
  have h0: "0 \<le> height" using h by simp
  from row_has_owner [OF h0 n r] obtain i where i: "0 \<le> i" "i < N"
    "start_row height N i \<le> r" "r < end_row height N i" by blast
  note rows = my_rows_nonneg [OF h0 n i(1,2)]
  have "start_row height N i * (width * 3) \<le> r * (width * 3)"
    using i(3) w3 by (intro mult_right_mono) auto
  with lo have a: "start_row height N i * width * 3 \<le> int d"
    unfolding mult.assoc by linarith
  have "(r + 1) * (width * 3) \<le> end_row height N i * (width * 3)"
    using i(4) w3 by (intro mult_right_mono) auto
  with hi have "int d < end_row height N i * (width * 3)" by linarith
  also have "end_row height N i * (width * 3) =
      start_row height N i * width * 3 + my_rows height N i * width * 3"
    by (simp add: my_rows_def algebra_simps)
  finally have b: "int d < start_row height N i * width * 3 + my_rows height N i * width * 3" .
  have s0: "0 \<le> start_row height N i * width * 3" using rows(1) w by simp
  have m0: "0 \<le> my_rows height N i * width * 3" using rows(4) w by simp
  from a b s0 m0 have "nat (start_row height N i * width * 3) \<le> d \<and>
           d < nat (start_row height N i * width * 3) + nat (my_rows height N i * width * 3)"
    by linarith
  with i(1,2) show ?thesis by blast
qed

lemma for_each_Some: "for_each ts (\<lambda>t s. Some (f t s)) s = Some (fold f ts s)"
  by (induction ts arbitrary: s) simp_all

lemma MPI_Gatherv_cells:
  assumes h: "0 < height" and w: "0 < width" and n: "messages \<noteq> []"
    and rep: "width * height * 3 \<le> INT_MAX"
    and len: "\<And>i. i < length messages \<Longrightarrow>
               length (messages ! i) = nat (my_rows height (int (length messages)) (int i) * width * 3)"
    and msg: "\<And>i j. i < length messages \<Longrightarrow> j < length (messages ! i) \<Longrightarrow>
               messages ! i ! j = f (j + nat (start_row height (int (length messages)) (int i) * width * 3))"
  shows "buffer (MPI_Gatherv messages M recvbuf
                  (recv_counts width height (int (length messages)))
                  (displs width height (int (length messages))))
           recvbuf (nat (width * height * 3)) = map f [0..<nat (width * height * 3)]"
proof -
  define N where "N = int (length messages)"
  have N: "1 \<le> N" using n by (cases messages) (simp_all add: N_def)
  have h0: "0 \<le> height" using h by simp
  let ?p = "\<lambda>i. idx recvbuf (displs width height N (int i))"
  let ?m = "\<lambda>i. take (nat (recv_counts width height N (int i))) (messages ! i)"
  let ?W = "\<lambda>i. {?p i..<?p i + length (messages ! i)}"
  let ?v = "\<lambda>a. f (a - recvbuf)"
  have p: "?p i = recvbuf + nat (start_row height N (int i) * width * 3)" if "i < length messages" for i
  proof -
    have i: "0 \<le> int i" "int i < N" using that by (simp_all add: N_def)
    have "0 \<le> start_row height N (int i)"
      using my_rows_nonneg(1) [OF h0 N i] .
    then have "0 \<le> start_row height N (int i) * width * 3" using w by simp
    then show ?thesis by (simp add: displs_eq [OF h0 N i w rep] idx_nonneg)
  qed
  have t: "?m i = messages ! i" if "i < length messages" for i
  proof -
    have i: "0 \<le> int i" "int i < N" using that by (simp_all add: N_def)
    have "length (messages ! i) = nat (recv_counts width height N (int i))"
      using len [OF that] recv_counts_eq [OF h0 N i w rep] by (simp add: N_def)
    then show ?thesis by simp
  qed
  have "\<exists>M'. for_each [0..<length messages] (\<lambda>i M. Some (store_buffer M (?p i) (?m i))) M = Some M' \<and>
          True \<and> writes M M' (\<Union>i\<in>set [0..<length messages]. ?W i) ?v"
  proof (rule for_each_writes [where P = "\<lambda>_. True"])
    fix i M assume "i \<in> set [0..<length messages]"
    then have i: "i < length messages" by simp
    have "writes M (store_buffer M (?p i) (messages ! i)) (?W i) ?v"
    proof (rule writes_store_buffer)
      fix j assume "j < length (messages ! i)"
      from msg [OF i this] show "messages ! i ! j = f (?p i + j - recvbuf)"
        by (simp add: p [OF i] N_def [symmetric] add.commute)
    qed
    then show "\<exists>M'. Some (store_buffer M (?p i) (?m i)) = Some M' \<and> True \<and> writes M M' (?W i) ?v"
      by (simp only: t [OF i]) blast
  qed simp
  then have wr: "writes M (MPI_Gatherv messages M recvbuf (recv_counts width height N) (displs width height N))
                  (\<Union>i\<in>set [0..<length messages]. ?W i) ?v"
    unfolding MPI_Gatherv_def for_each_Some by simp
  define M' where "M' = MPI_Gatherv messages M recvbuf (recv_counts width height N) (displs width height N)"
  have "M' a = f (a - recvbuf)" if a: "a \<in> {recvbuf..<recvbuf + nat (width * height * 3)}" for a
  proof -
    from a have "a - recvbuf < nat (width * height * 3)" by auto
    from byte_has_owner [OF h w N this] obtain i where i: "0 \<le> i" "i < N"
      and b: "nat (start_row height N i * width * 3) \<le> a - recvbuf"
         "a - recvbuf < nat (start_row height N i * width * 3) + nat (my_rows height N i * width * 3)"
      by blast
    define r where "r = nat i"
    have r: "r < length messages" "int r = i" using i by (simp_all add: r_def N_def)
    have pi: "idx recvbuf (displs width height N i) =
        recvbuf + nat (start_row height N i * width * 3)"
      using p [OF r(1)] by (simp only: r(2))
    have li: "length (messages ! r) = nat (my_rows height N i * width * 3)"
      using len [OF r(1)] by (simp only: r(2) N_def)
    have "a \<in> ?W r"
      using a b by (simp only: r(2) pi li atLeastLessThan_iff) linarith
    with r(1) have "a \<in> (\<Union>i\<in>set [0..<length messages]. ?W i)" by auto
    with wr show ?thesis unfolding writes_def M'_def by blast
  qed
  then have "buffer M' recvbuf (nat (width * height * 3)) = map f [0..<nat (width * height * 3)]"
    by (intro cells_buffer) simp
  then show ?thesis unfolding M'_def N_def .
qed

lemma mpi_main_runs:
  assumes wf: "mpi_well_formed procs width height channels"
  shows "mpi_main procs (Some output_rgb_root) width height channels kernel_size =
     (let nproc = int (length procs);
          ranks = [0..<length procs];
          img = buffer (memory (procs ! 0)) (the (input_rgb (procs ! 0)))
                  (nat (width * height * channels));
          finals = map (\<lambda>rank. mpi_compute (procs ! rank) img width height channels
                     kernel_size nproc (int rank)) ranks
      in case those finals of
           None \<Rightarrow> Trapped
         | Some Ms \<Rightarrow>
             Finished (gather_at_root
               (map (\<lambda>rank. buffer (Ms ! rank) (the (my_output (procs ! rank)))
                      (nat (send_count width height nproc (int rank)))) ranks)
               (Ms ! 0) output_rgb_root width height))"
proof -
  note D = mpi_well_formedD [OF wf]
  have ch1: "1 \<le> channels" using D(4) by auto
  have n0: "0 < length procs" using D(1) by simp
  have a: "input_rgb (procs ! 0) \<noteq> None" using D(7) [OF n0] by simp
  have "rank < length procs" if "rank \<in> set (tl [0..<length procs])" for rank
  proof -
    have "[0..<length procs] \<noteq> []" using n0 by simp
    from list.set_sel(2) [OF this that] show ?thesis by simp
  qed
  then have b: "\<not> list_ex (\<lambda>rank. input_rgb (procs ! rank) = None) (tl [0..<length procs])"
    using D(7) by (auto simp: list_ex_iff)
  have c: "\<not> list_ex (\<lambda>rank. my_output (procs ! rank) = None) [0..<length procs]"
    using D(7) by (auto simp: list_ex_iff)
  show ?thesis
    unfolding mpi_main_def Let_def sizes_exact(1) [OF D(2,3) ch1 D(5,6)]
    by (simp only: a b c if_False option.sel option.distinct)
qed

lemma mpi_main_result:
  assumes wf: "mpi_well_formed procs width height channels"
    and k: "is_radius (kernel_size sdiv 2)"
  shows "\<exists>M'. mpi_main procs (Some output_rgb_root) width height channels kernel_size = Finished M' \<and>
           buffer M' output_rgb_root (nat (width * height * 3)) =
             stored (memory (procs ! 0)) (the (input_rgb (procs ! 0))) width height channels
               (kernel_size sdiv 2)"
proof -
  define n where "n = length procs"
  define root where "root = the (input_rgb (procs ! 0))"
  define img where "img = buffer (memory (procs ! 0)) root (nat (width * height * channels))"
  let ?f = "stored_at (memory (procs ! 0)) root width height channels (kernel_size sdiv 2)"
  let ?Q = "\<lambda>rank M'. \<forall>j<nat (my_rows height (int n) (int rank) * width * 3).
              M' (the (my_output (procs ! rank)) + j) =
                ?f (j + nat (start_row height (int n) (int rank) * width * 3))"
  note D = mpi_well_formedD [OF wf]
  note w = D(2) and h = D(3) and ne = D(1) and rep = D(6)
  have h0: "0 \<le> height" using h by simp
  have n1: "1 \<le> int n" using ne by (cases procs) (simp_all add: n_def)
  have "\<forall>rank\<in>set [0..<n]. \<exists>M'. mpi_compute (procs ! rank) img width height channels kernel_size
            (int n) (int rank) = Some M' \<and> ?Q rank M'"
    using mpi_compute_cells [OF wf k] by (simp add: n_def img_def root_def)
  from those_map_Some [OF this] obtain Ms where
    Ms: "those (map (\<lambda>rank. mpi_compute (procs ! rank) img width height channels kernel_size
            (int n) (int rank)) [0..<n]) = Some Ms" "length Ms = n"
    and Q: "\<And>i. i < n \<Longrightarrow> ?Q i (Ms ! i)"
    by auto
  define messages where "messages = map (\<lambda>rank. buffer (Ms ! rank) (the (my_output (procs ! rank)))
                      (nat (send_count width height (int n) (int rank)))) [0..<n]"
  have lm: "length messages = n" by (simp add: messages_def)
  have mne: "messages \<noteq> []" using ne lm by (auto simp: n_def)
  have sc: "send_count width height (int n) (int i) = my_rows height (int n) (int i) * width * 3"
    if "i < n" for i
    using that by (intro send_count_eq [OF h0 n1 _ _ w rep]) simp_all
  have "buffer (MPI_Gatherv messages (Ms ! 0) output_rgb_root
                 (recv_counts width height (int (length messages)))
                 (displs width height (int (length messages))))
           output_rgb_root (nat (width * height * 3)) = map ?f [0..<nat (width * height * 3)]"
  proof (rule MPI_Gatherv_cells [OF h w mne rep])
    fix i assume "i < length messages"
    then show "length (messages ! i) = nat (my_rows height (int (length messages)) (int i) * width * 3)"
      by (simp add: messages_def sc)
  next
    fix i j assume i: "i < length messages" and j: "j < length (messages ! i)"
    then have "i < n" "j < nat (my_rows height (int n) (int i) * width * 3)"
      by (simp_all add: messages_def sc)
    with Q [OF this(1)] show "messages ! i ! j =
        ?f (j + nat (start_row height (int (length messages)) (int i) * width * 3))"
      by (simp add: messages_def sc)
  qed
  then show ?thesis
    unfolding mpi_main_runs [OF wf] Let_def gather_at_root_def
    by (simp add: Ms(1) [unfolded n_def img_def root_def] messages_def n_def stored_def root_def)
qed


section \<open>The gather against the sequential backend\<close>

lemma half_is_radius:
  assumes "0 \<le> kernel_size sdiv 2" "kernel_size \<le> INT_MAX"
  shows "is_radius (kernel_size sdiv 2)"
proof -
  have "kernel_size sdiv 2 \<le> 1073741823"
  proof (cases "0 \<le> kernel_size")
    case True
    then have "kernel_size sdiv 2 = kernel_size div 2" by (simp add: sdiv_nonneg_eq_div)
    with assms(2) show ?thesis by (simp add: INT_MAX_def)
  next
    case False
    then have "kernel_size sdiv 2 \<le> 0"
      by (simp add: signed_divide_int_def sgn_if pos_imp_zdiv_nonneg_iff)
    then show ?thesis by simp
  qed
  with assms(1) show ?thesis by (simp add: is_radius_def)
qed

text \<open>
  Claim C4, for the sizes that the 32-bit counts can hold.  For every number of
  processes of at least 1 and every image whose input and output sizes are
  representable, the root recomputes the receive count and the displacement of process
  \<open>i\<close> as the number of bytes of its rows and the byte offset \<open>start_row * width * 3\<close>
  of its first row, and the output that the gather assembles from the rows each
  process blurs on its own is the output of the sequential backend on the same image; a
  run with one process is the case \<open>length procs = 1\<close>.
\<close>

theorem gather_reconstructs_sequential:
  assumes "mpi_well_formed procs width height channels"
    and "well_formed input output_rgb width height channels"
    and "0 \<le> kernel_size sdiv 2" and "kernel_size \<le> INT_MAX"
    and "buffer M input (nat (width * height * channels)) =
         buffer (memory (procs ! 0)) (the (input_rgb (procs ! 0))) (nat (width * height * channels))"
  shows "(\<forall>i. 0 \<le> i \<and> i < int (length procs) \<longrightarrow>
             recv_counts width height (int (length procs)) i =
               my_rows height (int (length procs)) i * width * 3 \<and>
             displs width height (int (length procs)) i =
               start_row height (int (length procs)) i * width * 3) \<and>
         (\<exists>M\<^sub>s M\<^sub>r.
            apply_box_blur_color M input output_rgb width height channels kernel_size = Some M\<^sub>s \<and>
            mpi_main procs (Some output_rgb_root) width height channels kernel_size = Finished M\<^sub>r \<and>
            buffer M\<^sub>r output_rgb_root (nat (width * height * 3)) =
              buffer M\<^sub>s output_rgb (nat (width * height * 3)))"
proof -
  note ch = well_formedD(3) [OF assms(2)]
  then have ch1: "1 \<le> channels" by auto
  note k = half_is_radius [OF assms(3,4)]
  note D = mpi_well_formedD [OF assms(1)]
  have h0: "0 \<le> height" using D(3) by simp
  have n1: "1 \<le> int (length procs)" using D(1) by (cases procs) simp_all
  from apply_box_blur_color_result [OF assms(2) k, of M]
  obtain M\<^sub>s where s: "apply_box_blur_color M input output_rgb width height channels kernel_size = Some M\<^sub>s"
    "buffer M\<^sub>s output_rgb (nat (width * height * 3)) =
       stored M input width height channels (kernel_size sdiv 2)"
    by blast
  from mpi_main_result [OF assms(1) k, of output_rgb_root]
  obtain M\<^sub>r where r: "mpi_main procs (Some output_rgb_root) width height channels kernel_size = Finished M\<^sub>r"
    "buffer M\<^sub>r output_rgb_root (nat (width * height * 3)) =
       stored (memory (procs ! 0)) (the (input_rgb (procs ! 0))) width height channels (kernel_size sdiv 2)"
    by blast
  have "stored M input width height channels (kernel_size sdiv 2) =
        stored (memory (procs ! 0)) (the (input_rgb (procs ! 0))) width height channels (kernel_size sdiv 2)"
    by (rule same_rgb_stored [OF same_rgb_buffer [OF assms(5) ch1] ch])
  with s r have "\<exists>M\<^sub>s M\<^sub>r.
            apply_box_blur_color M input output_rgb width height channels kernel_size = Some M\<^sub>s \<and>
            mpi_main procs (Some output_rgb_root) width height channels kernel_size = Finished M\<^sub>r \<and>
            buffer M\<^sub>r output_rgb_root (nat (width * height * 3)) =
              buffer M\<^sub>s output_rgb (nat (width * height * 3))"
    by simp
  moreover have "recv_counts width height (int (length procs)) i =
               my_rows height (int (length procs)) i * width * 3 \<and>
             displs width height (int (length procs)) i =
               start_row height (int (length procs)) i * width * 3"
    if "0 \<le> i \<and> i < int (length procs)" for i
    using that recv_counts_eq [OF h0 n1 _ _ D(2,6), of i] displs_eq [OF h0 n1 _ _ D(2,6), of i]
    by simp
  ultimately show ?thesis by blast
qed

theorem gather_reconstructs_sequential_witness:
  "mpi_well_formed
     [\<lparr>memory = (\<lambda>a. word_of_nat a), input_rgb = Some 0, my_output = Some 40\<rparr>,
      \<lparr>memory = (\<lambda>a. 0), input_rgb = Some 7, my_output = Some 20\<rparr>] 1 2 1 \<and>
   well_formed 0 2 1 2 1 \<and> (0::int) \<le> 3 sdiv 2 \<and> (3::int) \<le> INT_MAX \<and>
   recv_counts 1 2 2 1 = 3 \<and> displs 1 2 2 1 = 3 \<and>
   (\<exists>M\<^sub>s M\<^sub>r.
      apply_box_blur_color (\<lambda>a. word_of_nat a) 0 2 1 2 1 3 = Some M\<^sub>s \<and>
      mpi_main
        [\<lparr>memory = (\<lambda>a. word_of_nat a), input_rgb = Some 0, my_output = Some 40\<rparr>,
         \<lparr>memory = (\<lambda>a. 0), input_rgb = Some 7, my_output = Some 20\<rparr>] (Some 30) 1 2 1 3 = Finished M\<^sub>r \<and>
      buffer M\<^sub>r 30 (nat (1 * 2 * 3)) = buffer M\<^sub>s 2 (nat (1 * 2 * 3)))"
proof -
  have a: "mpi_well_formed
     [\<lparr>memory = (\<lambda>a. word_of_nat a), input_rgb = Some 0, my_output = Some 40\<rparr>,
      \<lparr>memory = (\<lambda>a. 0), input_rgb = Some 7, my_output = Some 20\<rparr>] 1 2 1"
    by (simp add: mpi_well_formed_def separate_def my_rows_def end_row_def representable_def
        INT_MAX_def start_row_def rows_per_process_def signed_divide_int_def)
  have b: "well_formed 0 2 1 2 1" "(0::int) \<le> 3 sdiv 2" "(3::int) \<le> INT_MAX"
    by (simp_all add: well_formed_def separate_def representable_def INT_MAX_def signed_divide_int_def)
  have c: "buffer (\<lambda>a. word_of_nat a) 0 (nat (1 * 2 * 1)) =
      buffer (memory ([\<lparr>memory = (\<lambda>a. word_of_nat a), input_rgb = Some 0, my_output = Some 40\<rparr>,
      \<lparr>memory = (\<lambda>a. 0), input_rgb = Some 7, my_output = Some 20\<rparr>] ! 0))
        (the (input_rgb ([\<lparr>memory = (\<lambda>a. word_of_nat a), input_rgb = Some 0, my_output = Some 40\<rparr>,
      \<lparr>memory = (\<lambda>a. 0), input_rgb = Some 7, my_output = Some 20\<rparr>] ! 0))) (nat (1 * 2 * 1))"
    by simp
  have d: "recv_counts 1 2 2 1 = 3" "displs 1 2 2 1 = 3"
    by (simp_all add: recv_counts_def displs_def rows_per_process_def signed_divide_int_def int32_def)
  from gather_reconstructs_sequential [OF a b c, of 30] a b d show ?thesis
    by simp
qed

text \<open>
  Claim C4 as it is stated (for every input buffer) fails on an image of 40000 by
  40000 samples, whose output has 4800000000 bytes: the receive count of the only
  process of a run with one process is 505032704, so that the byte at offset
  506000000 of the output is not taken from its partial result; and in a run with two
  processes the displacement of the second one is negative instead of 2400000000.
\<close>

theorem gather_counts_wrap:
  "(40000::int) * 40000 * 1 \<le> INT_MAX \<and>
   my_rows 40000 1 0 * 40000 * 3 = 4800000000 \<and>
   recv_counts 40000 40000 1 0 = 505032704 \<and>
   gather_at_root [replicate 4800000000 255] (\<lambda>a. 0) 0 40000 40000 506000000 = 0 \<and>
   start_row 40000 2 1 * 40000 * 3 = 2400000000 \<and>
   displs 40000 40000 2 1 = - 1894967296"
  by (simp add: INT_MAX_def my_rows_def end_row_def start_row_def rows_per_process_def
        signed_divide_int_def recv_counts_def displs_def int32_def gather_at_root_def
        MPI_Gatherv_def store_buffer_def idx_def)

section \<open>The backends against each other\<close>

text \<open>
  The window accumulations of the five kernels are the same function, and for one
  image and one kernel size the sequential backend, the shared-memory backend under
  any schedule of its iterations, the distributed backend with any number of
  processes, and the two accelerator backends under any order of their work-items or
  threads all finish with the same bytes in their output buffers, provided that the
  accelerator runtimes report success and accept the launch; for OpenCL this takes a
  width and a height that are multiples of 16.
\<close>

lemma backends_agree_where_launched:
  assumes "well_formed input output_rgb width height channels"
    and "0 \<le> kernel_size sdiv 2" and "kernel_size \<le> INT_MAX"
    and "schedule_of (collapsed_iterations height width) (schedule (collapsed_iterations height width))"
    and "mpi_well_formed procs width height channels"
    and "buffer (memory (procs ! 0)) (the (input_rgb (procs ! 0))) (nat (width * height * channels)) =
         buffer M input (nat (width * height * channels))"
    and "\<forall>operation. cl_err cl operation = CL_SUCCESS"
    and "width mod 16 = 0" and "height mod 16 = 0"
    and "well_formed (d_input cl) (d_output cl) width height channels"
    and "schedule_of (nd_range width height) (cl_schedule cl (nd_range width height))"
    and "\<forall>call. cu_err cu call = cudaSuccess"
    and "launch_accepted (gridSize width blockDim) (gridSize height blockDim) blockDim"
    and "well_formed (cu_d_input cu) (cu_d_output cu) width height channels"
    and "schedule_of (cuda_grid (gridSize width blockDim) (gridSize height blockDim) blockDim)
           (cu_schedule cu (cuda_grid (gridSize width blockDim) (gridSize height blockDim) blockDim))"
  shows "accumulate_openmp = accumulate_color \<and> accumulate_mpi = accumulate_color \<and>
         accumulate_cl = accumulate_color \<and> accumulate_cuda = accumulate_color \<and>
         (\<exists>M\<^sub>1 M\<^sub>2 M\<^sub>3 M\<^sub>4 M\<^sub>5.
            apply_box_blur_color M input output_rgb width height channels kernel_size = Some M\<^sub>1 \<and>
            apply_box_blur_openmp schedule M input output_rgb width height channels kernel_size = Some M\<^sub>2 \<and>
            mpi_main procs (Some output_rgb_root) width height channels kernel_size = Finished M\<^sub>3 \<and>
            apply_box_blur_opencl cl M input output_rgb width height channels kernel_size = Finished M\<^sub>4 \<and>
            cuda_box_blur cu M input output_rgb width height channels kernel_size blockDim = Some M\<^sub>5 \<and>
            buffer M\<^sub>2 output_rgb (nat (width * height * 3)) =
              buffer M\<^sub>1 output_rgb (nat (width * height * 3)) \<and>
            buffer M\<^sub>3 output_rgb_root (nat (width * height * 3)) =
              buffer M\<^sub>1 output_rgb (nat (width * height * 3)) \<and>
            buffer M\<^sub>4 output_rgb (nat (width * height * 3)) =
              buffer M\<^sub>1 output_rgb (nat (width * height * 3)) \<and>
            buffer M\<^sub>5 output_rgb (nat (width * height * 3)) =
              buffer M\<^sub>1 output_rgb (nat (width * height * 3)))"
proof -
  let ?n = "nat (width * height * 3)"
  let ?b = "stored M input width height channels (kernel_size sdiv 2)"
  note ch = well_formedD(3) [OF assms(1)]
  then have ch1: "1 \<le> channels" by auto
  note k = half_is_radius [OF assms(2,3)]
  from apply_box_blur_color_result [OF assms(1) k, of M]
  obtain M\<^sub>1 where 1: "apply_box_blur_color M input output_rgb width height channels kernel_size = Some M\<^sub>1"
    "buffer M\<^sub>1 output_rgb ?n = ?b"
    by blast
  from apply_box_blur_openmp_writes [where schedule = schedule and ?M0.0 = M, OF assms(1) k assms(4)]
  obtain M\<^sub>2 where 2: "apply_box_blur_openmp schedule M input output_rgb width height channels kernel_size = Some M\<^sub>2"
    and w2: "writes M M\<^sub>2 {output_rgb..<output_rgb + ?n}
             (\<lambda>a. stored_at M input width height channels (kernel_size sdiv 2) (a - output_rgb))"
    by blast
  have b2: "buffer M\<^sub>2 output_rgb ?n = ?b"
    using writes_buffer [OF w2] by (simp add: stored_def)
  from mpi_main_result [OF assms(5) k, of output_rgb_root]
  obtain M\<^sub>3 where 3: "mpi_main procs (Some output_rgb_root) width height channels kernel_size = Finished M\<^sub>3"
    "buffer M\<^sub>3 output_rgb_root ?n =
       stored (memory (procs ! 0)) (the (input_rgb (procs ! 0))) width height channels (kernel_size sdiv 2)"
    by blast
  have b3: "buffer M\<^sub>3 output_rgb_root ?n = ?b"
    unfolding 3(2) by (rule same_rgb_stored [OF same_rgb_buffer [OF assms(6) ch1] ch])
  from apply_box_blur_opencl_result [OF assms(7,8,9,10) k assms(11), of M input output_rgb]
  obtain M\<^sub>4 where 4: "apply_box_blur_opencl cl M input output_rgb width height channels kernel_size = Finished M\<^sub>4"
    "buffer M\<^sub>4 output_rgb ?n = ?b"
    by blast
  from cuda_box_blur_result [OF assms(12,13,14) k assms(15), of M input output_rgb]
  obtain M\<^sub>5 where 5: "cuda_box_blur cu M input output_rgb width height channels kernel_size blockDim = Some M\<^sub>5"
    "buffer M\<^sub>5 output_rgb ?n = ?b"
    by blast
  from 1 2 b2 3(1) b3 4 5 show ?thesis
    by (simp add: accumulate_backends)
qed

text \<open>
  Claim C2 on an image of 100 by 100 pixels with 3 channels and the kernel size 5 of
  the main functions.  The sequential backend returns the blurred image.  The OpenCL
  host function asks for the global size 100 by 100 in work-groups of 16 by 16, the
  launch is refused with \<open>CL_INVALID_WORK_GROUP_SIZE\<close>, and \<open>check_error\<close> ends the program
  before a byte of the output is written, although every other call of the runtime
  succeeds.
\<close>

theorem opencl_refuses_100_by_100:
  "apply_box_blur_opencl
     \<lparr>cl_err = (\<lambda>operation. CL_SUCCESS), gpu_err = CL_SUCCESS, device_memory = (\<lambda>a. 0),
       d_input = 0, d_output = 30000, cl_schedule = (\<lambda>items. items)\<rparr>
     (\<lambda>a. word_of_nat a) 0 30000 100 100 3 5 =
       Exited ''Executing kernel'' CL_INVALID_WORK_GROUP_SIZE \<and>
   (\<exists>M'. apply_box_blur_color (\<lambda>a. word_of_nat a) 0 30000 100 100 3 5 = Some M' \<and>
          buffer M' 30000 30000 = blurred (\<lambda>a. word_of_nat a) 0 100 100 3 2)"
proof -
  have wf: "well_formed 0 30000 100 100 3"
    by (simp add: well_formed_def separate_def representable_def INT_MAX_def)
  have r: "(5::int) sdiv 2 = 2"
    by (simp add: signed_divide_int_def)
  have f: "window_fits (5 sdiv 2)"
    by (simp add: r window_fits_def INT_MAX_def)
  from apply_box_blur_color_result [OF wf window_fits_radius [OF f], of "\<lambda>a. word_of_nat a"]
  obtain M' where M': "apply_box_blur_color (\<lambda>a. word_of_nat a) 0 30000 100 100 3 5 = Some M'"
    "buffer M' 30000 (nat (100 * 100 * 3)) = stored (\<lambda>a. word_of_nat a) 0 100 100 3 (5 sdiv 2)"
    by blast
  from M'(2) have "buffer M' 30000 30000 = blurred (\<lambda>a. word_of_nat a) 0 100 100 3 2"
    using f by (simp add: r stored_exact)
  moreover have "apply_box_blur_opencl
     \<lparr>cl_err = (\<lambda>operation. CL_SUCCESS), gpu_err = CL_SUCCESS, device_memory = (\<lambda>a. 0),
       d_input = 0, d_output = 30000, cl_schedule = (\<lambda>items. items)\<rparr>
     (\<lambda>a. word_of_nat a) 0 30000 100 100 3 5 =
       Exited ''Executing kernel'' CL_INVALID_WORK_GROUP_SIZE"
    by (simp add: apply_box_blur_opencl_def clEnqueueNDRangeKernel_def size_t_def check_error_def
        CL_SUCCESS_def CL_INVALID_WORK_GROUP_SIZE_def Let_def)
  ultimately show ?thesis using M'(1) by blast
qed


section \<open>What a blur leaves unchanged\<close>

lemma pixel_frame:
  assumes run: "for_below 0 3 (\<lambda>c M.
            case accumulate_color M input width height channels k x y c of
              (s, n) \<Rightarrow>
                (case c_div s n of
                   None \<Rightarrow> None
                 | Some q \<Rightarrow> Some (M(a c := word_of_int q)))) M = Some M'"
    and cells: "\<And>c. 0 \<le> c \<Longrightarrow> c < 3 \<Longrightarrow> a c \<in> W"
  shows "\<forall>b. b \<notin> W \<longrightarrow> M' b = M b"
proof (rule for_each_frame [OF _ run [unfolded for_below_for_each]])
  fix c :: int and M M' :: mem
  assume c: "c \<in> set [0..3 - 1]"
    and "(case accumulate_color M input width height channels k x y c of
              (s, n) \<Rightarrow>
                (case c_div s n of
                   None \<Rightarrow> None
                 | Some q \<Rightarrow> Some (M(a c := word_of_int q)))) = Some M'"
  then obtain q where "M' = M(a c := q)"
    by (auto split: prod.splits option.splits)
  moreover have "a c \<in> W" using c by (intro cells) auto
  ultimately show "\<forall>b. b \<notin> W \<longrightarrow> M' b = M b" by auto
qed

lemma apply_box_blur_color_frame:
  assumes "apply_box_blur_color M input output_rgb width height channels kernel_size = Some M'"
    and rep: "width * height * 3 \<le> INT_MAX"
  shows "\<forall>a. a \<notin> {output_rgb..<output_rgb + nat (width * height * 3)} \<longrightarrow> M' a = M a"
proof (rule for_each_frame [OF _ assms(1) [unfolded apply_box_blur_color_def Let_def
          for_below_eq [of 0 height] for_below_eq [of 0 width]]])
  fix y :: int and M M' :: mem
  assume y: "y \<in> set [0..height - 1]"
    and row: "for_each [0..width - 1] (\<lambda>x. for_below 0 3 (\<lambda>c M.
            case accumulate_color M input width height channels (kernel_size sdiv 2) x y c of
              (s, n) \<Rightarrow>
                (case c_div s n of
                   None \<Rightarrow> None
                 | Some q \<Rightarrow> Some (M(idx output_rgb (int32 (int32 (int32 (int32 (y * width) + x) * 3) + c)) := word_of_int q))))) M = Some M'"
  show "\<forall>a. a \<notin> {output_rgb..<output_rgb + nat (width * height * 3)} \<longrightarrow> M' a = M a"
  proof (rule for_each_frame [OF _ row])
    fix x :: int and M M' :: mem
    assume x: "x \<in> set [0..width - 1]"
      and px: "for_below 0 3 (\<lambda>c M.
            case accumulate_color M input width height channels (kernel_size sdiv 2) x y c of
              (s, n) \<Rightarrow>
                (case c_div s n of
                   None \<Rightarrow> None
                 | Some q \<Rightarrow> Some (M(idx output_rgb (int32 (int32 (int32 (int32 (y * width) + x) * 3) + c)) := word_of_int q)))) M = Some M'"
    from x y have b: "0 \<le> x" "x < width" "0 \<le> y" "y < height" by auto
    show "\<forall>a. a \<notin> {output_rgb..<output_rgb + nat (width * height * 3)} \<longrightarrow> M' a = M a"
      by (rule pixel_frame [OF px]) (rule dst32_in_output [OF b _ _ rep])
  qed
qed

lemma apply_box_blur_openmp_frame:
  assumes run: "apply_box_blur_openmp schedule M input output_rgb width height channels kernel_size = Some M'"
    and sched: "set (schedule (collapsed_iterations height width)) \<subseteq> set (collapsed_iterations height width)"
    and rep: "width * height * 3 \<le> INT_MAX"
  shows "\<forall>a. a \<notin> {output_rgb..<output_rgb + nat (width * height * 3)} \<longrightarrow> M' a = M a"
proof (rule for_each_frame [OF _ run [unfolded apply_box_blur_openmp_def Let_def accumulate_backends]])
  fix t :: "int \<times> int" and M M' :: mem
  assume t: "t \<in> set (schedule (collapsed_iterations height width))"
    and px: "(case t of (y, x) \<Rightarrow> for_below 0 3 (\<lambda>c M.
            case accumulate_color M input width height channels (kernel_size sdiv 2) x y c of
              (s, n) \<Rightarrow>
                (case c_div s n of
                   None \<Rightarrow> None
                 | Some q \<Rightarrow> Some (M(idx output_rgb (int32 (int32 (int32 (int32 (y * width) + x) * 3) + c)) := word_of_int q))))) M = Some M'"
  obtain y x where yx: "t = (y, x)" by (cases t)
  with t sched have b: "0 \<le> x" "x < width" "0 \<le> y" "y < height"
    by (auto simp: set_collapsed_iterations)
  show "\<forall>a. a \<notin> {output_rgb..<output_rgb + nat (width * height * 3)} \<longrightarrow> M' a = M a"
    by (rule pixel_frame [OF px [unfolded yx prod.case]]) (rule dst32_in_output [OF b _ _ rep])
qed

lemma apply_box_blur_mpi_frame:
  assumes "apply_box_blur_mpi M input output_rgb width height channels kernel_size s e = Some M'"
    and rep: "width * (e - s) * 3 \<le> INT_MAX"
  shows "\<forall>a. a \<notin> {output_rgb..<output_rgb + nat (width * (e - s) * 3)} \<longrightarrow> M' a = M a"
proof (rule for_each_frame [OF _ assms(1) [unfolded apply_box_blur_mpi_def Let_def accumulate_backends
          for_below_eq [of s e] for_below_eq [of 0 width]]])
  fix y :: int and M M' :: mem
  assume y: "y \<in> set [s..e - 1]"
    and row: "for_each [0..width - 1] (\<lambda>x. for_below 0 3 (\<lambda>c M.
            case accumulate_color M input width height channels (kernel_size sdiv 2) x y c of
              (s', n) \<Rightarrow>
                (case c_div s' n of
                   None \<Rightarrow> None
                 | Some q \<Rightarrow> Some (M(idx output_rgb (int32 (int32 (int32 (int32 (int32 (y - s) * width) + x) * 3) + c)) := word_of_int q))))) M = Some M'"
  show "\<forall>a. a \<notin> {output_rgb..<output_rgb + nat (width * (e - s) * 3)} \<longrightarrow> M' a = M a"
  proof (rule for_each_frame [OF _ row])
    fix x :: int and M M' :: mem
    assume x: "x \<in> set [0..width - 1]"
      and px: "for_below 0 3 (\<lambda>c M.
            case accumulate_color M input width height channels (kernel_size sdiv 2) x y c of
              (s', n) \<Rightarrow>
                (case c_div s' n of
                   None \<Rightarrow> None
                 | Some q \<Rightarrow> Some (M(idx output_rgb (int32 (int32 (int32 (int32 (int32 (y - s) * width) + x) * 3) + c)) := word_of_int q)))) M = Some M'"
    from x y have b: "0 \<le> x" "x < width" "0 \<le> y - s" "y - s < e - s" by auto
    define q where "q = width * (e - s)"
    have "1 * (e - s) \<le> width * (e - s)" using b by (intro mult_right_mono) auto
    then have "e - s \<le> q" by (simp add: q_def)
    moreover from rep have "q * 3 \<le> INT_MAX" by (simp add: q_def)
    ultimately have "y - s \<le> INT_MAX" using b by linarith
    with b have ly: "int32 (y - s) = y - s" by (simp add: int32_nonneg_id)
    show "\<forall>a. a \<notin> {output_rgb..<output_rgb + nat (width * (e - s) * 3)} \<longrightarrow> M' a = M a"
      by (rule pixel_frame [OF px [unfolded ly]]) (rule dst32_in_output [OF b _ _ rep])
  qed
qed

lemma box_blur_kernel_cl_frame:
  assumes run: "box_blur_kernel_cl M input output width height channels kernel_size (gid0, gid1) = Some M'"
    and g: "0 \<le> gid0" "gid0 \<le> INT_MAX" "0 \<le> gid1" "gid1 \<le> INT_MAX"
    and rep: "width * height * 3 \<le> INT_MAX"
  shows "\<forall>a. a \<notin> {output..<output + nat (width * height * 3)} \<longrightarrow> M' a = M a"
proof (cases "gid0 \<ge> width \<or> gid1 \<ge> height")
  case True
  with run g show ?thesis by (simp add: box_blur_kernel_cl_def int32_nonneg_id)
next
  case False
  then have b: "0 \<le> gid0" "gid0 < width" "0 \<le> gid1" "gid1 < height" using g by auto
  have i: "int32 gid0 = gid0" "int32 gid1 = gid1"
    using g by (simp_all add: int32_nonneg_id)
  from run False have px: "for_below 0 3 (\<lambda>c M.
            case accumulate_color M input width height channels (kernel_size sdiv 2) gid0 gid1 c of
              (s, n) \<Rightarrow>
                (case c_div s n of
                   None \<Rightarrow> None
                 | Some q \<Rightarrow> Some (M(idx output (int32 (int32 (int32 (int32 (gid1 * width) + gid0) * 3) + c)) := word_of_int q)))) M = Some M'"
    unfolding box_blur_kernel_cl_def Let_def accumulate_backends
    by (simp only: prod.case i if_False)
  show ?thesis
    by (rule pixel_frame [OF px]) (rule dst32_in_output [OF b _ _ rep])
qed

lemma box_blur_kernel_cuda_frame:
  assumes run: "box_blur_kernel_cuda M input output width height channels kernelSize blockDim
                  (bx, by, tx, ty) = Some M'"
    and g: "0 \<le> bx * blockDim + tx" "bx * blockDim + tx \<le> INT_MAX"
      "0 \<le> by * blockDim + ty" "by * blockDim + ty \<le> INT_MAX"
    and rep: "width * height * 3 \<le> INT_MAX"
  shows "\<forall>a. a \<notin> {output..<output + nat (width * height * 3)} \<longrightarrow> M' a = M a"
proof -
  have i: "int32 (uint32 (bx * blockDim + tx)) = bx * blockDim + tx"
    "int32 (uint32 (by * blockDim + ty)) = by * blockDim + ty"
    using g by (simp_all add: int32_nonneg_id)
  show ?thesis
  proof (cases "bx * blockDim + tx < width \<and> by * blockDim + ty < height")
    case False
    with run g show ?thesis
      by (simp add: box_blur_kernel_cuda_def Let_def int32_nonneg_id)
  next
    case True
    then have b: "0 \<le> bx * blockDim + tx" "bx * blockDim + tx < width"
      "0 \<le> by * blockDim + ty" "by * blockDim + ty < height" using g by auto
    from run True have px: "for_below 0 3 (\<lambda>c M.
            case accumulate_color M input width height channels (kernelSize sdiv 2)
                   (bx * blockDim + tx) (by * blockDim + ty) c of
              (s, n) \<Rightarrow>
                (case c_div s n of
                   None \<Rightarrow> None
                 | Some q \<Rightarrow> Some (M(idx output (int32 (int32 (int32 (int32 ((by * blockDim + ty) * width) + (bx * blockDim + tx)) * 3) + c))
                                       := word_of_int q)))) M = Some M'"
      unfolding box_blur_kernel_cuda_def Let_def accumulate_backends
      by (simp only: prod.case i if_True simp_thms)
    show ?thesis
      by (rule pixel_frame [OF px]) (rule dst32_in_output [OF b _ _ rep])
  qed
qed

lemma frame_buffer:
  assumes "\<forall>a. a \<notin> {q..<q + m} \<longrightarrow> M' a = M a" and "separate p n q m"
  shows "buffer M' p n = buffer M p n"
  using assms by (auto simp: buffer_def separate_def)

section \<open>The input is not written\<close>

lemma output_size_exact:
  assumes "0 < width" "0 < height" "width * height * 3 \<le> INT_MAX"
  shows "size_t (int32 (int32 (width * height) * 3)) = nat (width * height * 3)"
proof -
  have "0 \<le> width * height * 3" using assms by simp
  then show ?thesis using assms(3) by (simp add: int32_nonneg_id size_t_id)
qed

lemma apply_box_blur_opencl_Finished:
  assumes "apply_box_blur_opencl cl M input output_rgb width height channels kernel_size = Finished M'"
    and "0 < width" "0 < height" "width * height * 3 \<le> INT_MAX"
  shows "\<exists>D'. M' = store_buffer M output_rgb (buffer D' (d_output cl) (nat (width * height * 3)))"
  using assms(1) unfolding apply_box_blur_opencl_def Let_def output_size_exact [OF assms(2-4)]
  by (auto split: option.splits)

lemma cuda_box_blur_Some:
  assumes "cuda_box_blur cu M input output_rgb width height channels kernel_size blockDim = Some M'"
    and "0 < width" "0 < height" "width * height * 3 \<le> INT_MAX"
  shows "M' = M \<or>
         (\<exists>D'. M' = store_buffer M output_rgb (buffer D' (cu_d_output cu) (nat (width * height * 3))))"
  using assms(1) unfolding cuda_box_blur_def Let_def output_size_exact [OF assms(2-4)]
  by (auto split: option.splits if_splits)

text \<open>
  Claim C5, for an output whose size is representable.  No blur writes its input: when
  the output buffer of \<open>width * height * 3\<close> bytes, a number that an \<open>int\<close> can hold,
  is apart from the \<open>n\<close> bytes at \<open>input\<close>, then for every kernel size and every row
  range, whenever a backend returns, those \<open>n\<close> bytes are what they were before.  This
  holds for the sequential and the shared-memory function, for the rows of one process
  of the distributed backend, for one work-item or thread of the accelerator kernels in
  the device memory, and for the host memory around the two accelerator launches.
\<close>

theorem input_is_never_written:
  assumes "separate input n output_rgb (nat (width * height * 3))"
    and "0 < width" and "0 < height" and "width * height * 3 \<le> INT_MAX"
  shows "(\<forall>M'. apply_box_blur_color M input output_rgb width height channels kernel_size = Some M' \<longrightarrow>
            buffer M' input n = buffer M input n) \<and>
         (\<forall>schedule M'. set (schedule (collapsed_iterations height width)) \<subseteq> set (collapsed_iterations height width) \<longrightarrow>
            apply_box_blur_openmp schedule M input output_rgb width height channels kernel_size = Some M' \<longrightarrow>
            buffer M' input n = buffer M input n) \<and>
         (\<forall>s e M'. separate input n output_rgb (nat (width * (e - s) * 3)) \<longrightarrow>
            width * (e - s) * 3 \<le> INT_MAX \<longrightarrow>
            apply_box_blur_mpi M input output_rgb width height channels kernel_size s e = Some M' \<longrightarrow>
            buffer M' input n = buffer M input n) \<and>
         (\<forall>gid0 gid1 M'. 0 \<le> gid0 \<and> gid0 \<le> INT_MAX \<and> 0 \<le> gid1 \<and> gid1 \<le> INT_MAX \<longrightarrow>
            box_blur_kernel_cl M input output_rgb width height channels kernel_size (gid0, gid1) = Some M' \<longrightarrow>
            buffer M' input n = buffer M input n) \<and>
         (\<forall>blockDim bx by tx ty M'.
            0 \<le> bx * blockDim + tx \<and> bx * blockDim + tx \<le> INT_MAX \<and>
            0 \<le> by * blockDim + ty \<and> by * blockDim + ty \<le> INT_MAX \<longrightarrow>
            box_blur_kernel_cuda M input output_rgb width height channels kernel_size blockDim
              (bx, by, tx, ty) = Some M' \<longrightarrow>
            buffer M' input n = buffer M input n) \<and>
         (\<forall>cl M'. apply_box_blur_opencl cl M input output_rgb width height channels kernel_size =
              Finished M' \<longrightarrow>
            buffer M' input n = buffer M input n) \<and>
         (\<forall>cu blockDim M'. cuda_box_blur cu M input output_rgb width height channels kernel_size blockDim =
              Some M' \<longrightarrow>
            buffer M' input n = buffer M input n)"
proof (intro conjI allI impI)
  fix M' assume "apply_box_blur_color M input output_rgb width height channels kernel_size = Some M'"
  from frame_buffer [OF apply_box_blur_color_frame [OF this assms(4)] assms(1)]
  show "buffer M' input n = buffer M input n" .
next
  fix schedule M'
  assume "set (schedule (collapsed_iterations height width)) \<subseteq> set (collapsed_iterations height width)"
    and "apply_box_blur_openmp schedule M input output_rgb width height channels kernel_size = Some M'"
  from frame_buffer [OF apply_box_blur_openmp_frame [OF this(2,1) assms(4)] assms(1)]
  show "buffer M' input n = buffer M input n" .
next
  fix s e M'
  assume "separate input n output_rgb (nat (width * (e - s) * 3))"
    and "width * (e - s) * 3 \<le> INT_MAX"
    and "apply_box_blur_mpi M input output_rgb width height channels kernel_size s e = Some M'"
  from frame_buffer [OF apply_box_blur_mpi_frame [OF this(3,2)] this(1)]
  show "buffer M' input n = buffer M input n" .
next
  fix gid0 gid1 M'
  assume g: "0 \<le> gid0 \<and> gid0 \<le> INT_MAX \<and> 0 \<le> gid1 \<and> gid1 \<le> INT_MAX"
    and run: "box_blur_kernel_cl M input output_rgb width height channels kernel_size (gid0, gid1) = Some M'"
  from g have "0 \<le> gid0" "gid0 \<le> INT_MAX" "0 \<le> gid1" "gid1 \<le> INT_MAX" by simp_all
  from frame_buffer [OF box_blur_kernel_cl_frame [OF run this assms(4)] assms(1)]
  show "buffer M' input n = buffer M input n" .
next
  fix blockDim bx "by" tx ty M'
  assume g: "0 \<le> bx * blockDim + tx \<and> bx * blockDim + tx \<le> INT_MAX \<and>
            0 \<le> by * blockDim + ty \<and> by * blockDim + ty \<le> INT_MAX"
    and run: "box_blur_kernel_cuda M input output_rgb width height channels kernel_size blockDim
              (bx, by, tx, ty) = Some M'"
  from g have "0 \<le> bx * blockDim + tx" "bx * blockDim + tx \<le> INT_MAX"
    "0 \<le> by * blockDim + ty" "by * blockDim + ty \<le> INT_MAX" by simp_all
  from frame_buffer [OF box_blur_kernel_cuda_frame [OF run this assms(4)] assms(1)]
  show "buffer M' input n = buffer M input n" .
next
  fix cl M'
  assume "apply_box_blur_opencl cl M input output_rgb width height channels kernel_size = Finished M'"
  from apply_box_blur_opencl_Finished [OF this assms(2-4)]
  obtain D' where "M' = store_buffer M output_rgb (buffer D' (d_output cl) (nat (width * height * 3)))"
    by blast
  then have "\<forall>a. a \<notin> {output_rgb..<output_rgb + nat (width * height * 3)} \<longrightarrow> M' a = M a"
    by (simp add: store_buffer_outside)
  from frame_buffer [OF this assms(1)] show "buffer M' input n = buffer M input n" .
next
  fix cu blockDim M'
  assume "cuda_box_blur cu M input output_rgb width height channels kernel_size blockDim = Some M'"
  from cuda_box_blur_Some [OF this assms(2-4)]
  have "\<forall>a. a \<notin> {output_rgb..<output_rgb + nat (width * height * 3)} \<longrightarrow> M' a = M a"
    by (auto simp: store_buffer_outside)
  from frame_buffer [OF this assms(1)] show "buffer M' input n = buffer M input n" .
qed

lemmas eval_defs = for_below.simps for_upto.simps c_div_def signed_divide_int_def idx_def
  int32_def uint32_def

theorem input_is_never_written_witness:
  "separate 0 256 256 (nat (16 * 16 * 3)) \<and> (0::int) < 16 \<and> (16::int) * 16 * 3 \<le> INT_MAX \<and>
   (\<exists>M'. apply_box_blur_color (\<lambda>a. 7) 0 256 16 16 1 1 = Some M' \<and>
          buffer M' 0 256 = buffer (\<lambda>a. 7) 0 256) \<and>
   set (rev (collapsed_iterations 16 16)) \<subseteq> set (collapsed_iterations 16 16) \<and>
   (\<exists>M'. apply_box_blur_openmp rev (\<lambda>a. 7) 0 256 16 16 1 1 = Some M' \<and>
          buffer M' 0 256 = buffer (\<lambda>a. 7) 0 256) \<and>
   separate 0 256 256 (nat (16 * (1 - 0) * 3)) \<and> (16::int) * (1 - 0) * 3 \<le> INT_MAX \<and>
   (\<exists>M'. apply_box_blur_mpi (\<lambda>a. 7) 0 256 16 16 1 1 0 1 = Some M' \<and>
          buffer M' 0 256 = buffer (\<lambda>a. 7) 0 256) \<and>
   (\<exists>M'. box_blur_kernel_cl (\<lambda>a. 7) 0 256 16 16 1 1 (0, 0) = Some M' \<and>
          buffer M' 0 256 = buffer (\<lambda>a. 7) 0 256) \<and>
   (\<exists>M'. box_blur_kernel_cuda (\<lambda>a. 7) 0 256 16 16 1 1 16 (0, 0, 0, 0) = Some M' \<and>
          buffer M' 0 256 = buffer (\<lambda>a. 7) 0 256) \<and>
   (\<exists>M'. apply_box_blur_opencl
            \<lparr>cl_err = (\<lambda>operation. CL_SUCCESS), gpu_err = CL_SUCCESS, device_memory = (\<lambda>a. 0),
              d_input = 0, d_output = 256, cl_schedule = rev\<rparr> (\<lambda>a. 7) 0 256 16 16 1 1 = Finished M' \<and>
          buffer M' 0 256 = buffer (\<lambda>a. 7) 0 256) \<and>
   (\<exists>M'. cuda_box_blur
            \<lparr>cu_err = (\<lambda>call. cudaSuccess), cu_device_memory = (\<lambda>a. 0), cu_d_input = 0,
              cu_d_output = 256, cu_schedule = rev\<rparr> (\<lambda>a. 7) 0 256 16 16 1 1 16 = Some M' \<and>
          buffer M' 0 256 = buffer (\<lambda>a. 7) 0 256)"
proof -
  have sep: "separate 0 256 256 (nat (16 * 16 * 3))" "separate 0 256 256 (nat (16 * (1 - 0) * 3))"
    by (simp_all add: separate_def)
  have pos: "(0::int) < 16" by simp
  have rep: "(16::int) * 16 * 3 \<le> INT_MAX" "(16::int) * (1 - 0) * 3 \<le> INT_MAX"
    by (simp_all add: INT_MAX_def)
  have wf: "well_formed 0 256 16 16 1"
    by (simp add: well_formed_def separate_def representable_def INT_MAX_def)
  have k: "is_radius (1 sdiv 2)"
    by (simp add: is_radius_def signed_divide_int_def)
  have sched: "set (rev (collapsed_iterations 16 16)) \<subseteq> set (collapsed_iterations 16 16)"
    by simp
  have d: "distinct (collapsed_iterations 16 16)" "distinct (nd_range 16 16)"
    by (simp_all add: collapsed_iterations_def nd_range_def distinct_product)
  have g: "gridSize 16 16 = 1"
    by (simp add: gridSize_def uint32_def)
  have d3: "distinct (cuda_grid 1 1 16)"
    by (simp add: cuda_grid_def distinct_product distinct_map inj_on_def)
  note T = input_is_never_written [OF sep(1) pos pos rep(1), of "\<lambda>a. 7" 1 1]
  have 1: "\<exists>M'. apply_box_blur_color (\<lambda>a. 7) 0 256 16 16 1 1 = Some M'"
    using apply_box_blur_color_result [OF wf k, of "\<lambda>a. 7"] by blast
  have 2: "\<exists>M'. apply_box_blur_openmp rev (\<lambda>a. 7) 0 256 16 16 1 1 = Some M'"
    using apply_box_blur_openmp_writes [OF wf k, of rev "\<lambda>a. 7"] d(1)
    by (auto simp: schedule_of_def)
  have 3: "\<exists>M'. apply_box_blur_mpi (\<lambda>a. 7) 0 256 16 16 1 1 0 1 = Some M'"
    using apply_box_blur_mpi_writes [of 16 1 0 16 256 1 0 1 "\<lambda>a. 7"] k
    by (auto simp: separate_def INT_MAX_def)
  have 4: "\<exists>M'. box_blur_kernel_cl (\<lambda>a. 7) 0 256 16 16 1 1 (0, 0) = Some M'"
    by (simp add: box_blur_kernel_cl_def accumulate_cl_def eval_defs)
  have 5: "\<exists>M'. box_blur_kernel_cuda (\<lambda>a. 7) 0 256 16 16 1 1 16 (0, 0, 0, 0) = Some M'"
    by (simp add: box_blur_kernel_cuda_def accumulate_cuda_def eval_defs)
  have 6: "\<exists>M'. apply_box_blur_opencl
            \<lparr>cl_err = (\<lambda>operation. CL_SUCCESS), gpu_err = CL_SUCCESS, device_memory = (\<lambda>a. 0),
              d_input = 0, d_output = 256, cl_schedule = rev\<rparr> (\<lambda>a. 7) 0 256 16 16 1 1 = Finished M'"
    using apply_box_blur_opencl_result [of "\<lparr>cl_err = (\<lambda>operation. CL_SUCCESS), gpu_err = CL_SUCCESS,
              device_memory = (\<lambda>a. 0), d_input = 0, d_output = 256, cl_schedule = rev\<rparr>"
             16 16 1 1 "\<lambda>a. 7" 0 256] wf k d(2)
    by (auto simp: schedule_of_def)
  have 7: "\<exists>M'. cuda_box_blur
            \<lparr>cu_err = (\<lambda>call. cudaSuccess), cu_device_memory = (\<lambda>a. 0), cu_d_input = 0,
              cu_d_output = 256, cu_schedule = rev\<rparr> (\<lambda>a. 7) 0 256 16 16 1 1 16 = Some M'"
    using cuda_box_blur_result [of "\<lparr>cu_err = (\<lambda>call. cudaSuccess), cu_device_memory = (\<lambda>a. 0),
              cu_d_input = 0, cu_d_output = 256, cu_schedule = rev\<rparr>" 16 16 16 1 1 "\<lambda>a. 7" 0 256]
      wf k d3
    by (auto simp: schedule_of_def g launch_accepted_def)
  from 1 obtain M1 where m1: "apply_box_blur_color (\<lambda>a. 7) 0 256 16 16 1 1 = Some M1" ..
  from 2 obtain M2 where m2: "apply_box_blur_openmp rev (\<lambda>a. 7) 0 256 16 16 1 1 = Some M2" ..
  from 3 obtain M3 where m3: "apply_box_blur_mpi (\<lambda>a. 7) 0 256 16 16 1 1 0 1 = Some M3" ..
  from 4 obtain M4 where m4: "box_blur_kernel_cl (\<lambda>a. 7) 0 256 16 16 1 1 (0, 0) = Some M4" ..
  from 5 obtain M5 where m5: "box_blur_kernel_cuda (\<lambda>a. 7) 0 256 16 16 1 1 16 (0, 0, 0, 0) = Some M5" ..
  from 6 obtain M6 where m6: "apply_box_blur_opencl
            \<lparr>cl_err = (\<lambda>operation. CL_SUCCESS), gpu_err = CL_SUCCESS, device_memory = (\<lambda>a. 0),
              d_input = 0, d_output = 256, cl_schedule = rev\<rparr> (\<lambda>a. 7) 0 256 16 16 1 1 = Finished M6" ..
  from 7 obtain M7 where m7: "cuda_box_blur
            \<lparr>cu_err = (\<lambda>call. cudaSuccess), cu_device_memory = (\<lambda>a. 0), cu_d_input = 0,
              cu_d_output = 256, cu_schedule = rev\<rparr> (\<lambda>a. 7) 0 256 16 16 1 1 16 = Some M7" ..
  have z: "(0::int) \<le> 0 \<and> (0::int) \<le> INT_MAX \<and> (0::int) \<le> 0 \<and> (0::int) \<le> INT_MAX"
    "(0::int) \<le> 0 * 16 + 0 \<and> (0::int) * 16 + 0 \<le> INT_MAX \<and>
     (0::int) \<le> 0 * 16 + 0 \<and> (0::int) * 16 + 0 \<le> INT_MAX"
    by (simp_all add: INT_MAX_def)
  note t1 = T [THEN conjunct1, rule_format, OF m1]
  note t2 = T [THEN conjunct2, THEN conjunct1, rule_format, OF sched m2]
  note t3 = T [THEN conjunct2, THEN conjunct2, THEN conjunct1, rule_format, OF sep(2) rep(2) m3]
  note t4 = T [THEN conjunct2, THEN conjunct2, THEN conjunct2, THEN conjunct1, rule_format, OF z(1) m4]
  note t5 = T [THEN conjunct2, THEN conjunct2, THEN conjunct2, THEN conjunct2, THEN conjunct1,
         rule_format, OF z(2) m5]
  note t6 = T [THEN conjunct2, THEN conjunct2, THEN conjunct2, THEN conjunct2, THEN conjunct2,
         THEN conjunct1, rule_format, OF m6]
  note t7 = T [THEN conjunct2, THEN conjunct2, THEN conjunct2, THEN conjunct2, THEN conjunct2,
         THEN conjunct2, rule_format, OF m7]
  have c1: "\<exists>M'. apply_box_blur_color (\<lambda>a. 7) 0 256 16 16 1 1 = Some M' \<and>
      buffer M' 0 256 = buffer (\<lambda>a. 7) 0 256"
    using m1 t1 by (intro exI [of _ M1] conjI)
  have c2: "\<exists>M'. apply_box_blur_openmp rev (\<lambda>a. 7) 0 256 16 16 1 1 = Some M' \<and>
      buffer M' 0 256 = buffer (\<lambda>a. 7) 0 256"
    using m2 t2 by (intro exI [of _ M2] conjI)
  have c3: "\<exists>M'. apply_box_blur_mpi (\<lambda>a. 7) 0 256 16 16 1 1 0 1 = Some M' \<and>
      buffer M' 0 256 = buffer (\<lambda>a. 7) 0 256"
    using m3 t3 by (intro exI [of _ M3] conjI)
  have c4: "\<exists>M'. box_blur_kernel_cl (\<lambda>a. 7) 0 256 16 16 1 1 (0, 0) = Some M' \<and>
      buffer M' 0 256 = buffer (\<lambda>a. 7) 0 256"
    using m4 t4 by (intro exI [of _ M4] conjI)
  have c5: "\<exists>M'. box_blur_kernel_cuda (\<lambda>a. 7) 0 256 16 16 1 1 16 (0, 0, 0, 0) = Some M' \<and>
      buffer M' 0 256 = buffer (\<lambda>a. 7) 0 256"
    using m5 t5 by (intro exI [of _ M5] conjI)
  have c6: "\<exists>M'. apply_box_blur_opencl
            \<lparr>cl_err = (\<lambda>operation. CL_SUCCESS), gpu_err = CL_SUCCESS, device_memory = (\<lambda>a. 0),
              d_input = 0, d_output = 256, cl_schedule = rev\<rparr> (\<lambda>a. 7) 0 256 16 16 1 1 = Finished M' \<and>
      buffer M' 0 256 = buffer (\<lambda>a. 7) 0 256"
    using m6 t6 by (intro exI [of _ M6] conjI)
  have c7: "\<exists>M'. cuda_box_blur
            \<lparr>cu_err = (\<lambda>call. cudaSuccess), cu_device_memory = (\<lambda>a. 0), cu_d_input = 0,
              cu_d_output = 256, cu_schedule = rev\<rparr> (\<lambda>a. 7) 0 256 16 16 1 1 16 = Some M' \<and>
      buffer M' 0 256 = buffer (\<lambda>a. 7) 0 256"
    using m7 t7 by (intro exI [of _ M7] conjI)
  from sep pos rep sched c1 c2 c3 c4 c5 c6 c7 show ?thesis
    by (intro conjI)
qed


section \<open>Outputs that an int cannot index\<close>

text \<open>
  When \<open>width * height * 3\<close> exceeds \<open>INT_MAX\<close> the index \<open>dst_idx\<close> wraps.  The last
  store of the sequential function then goes to the cell at the wrapped offset of
  \<open>width * height * 3 - 1\<close>; as long as no earlier store reaches the input, the value
  it stores is the average of the last window.
\<close>

lemma for_each_append:
  "for_each (xs @ ys) body s =
     (case for_each xs body s of None \<Rightarrow> None | Some s' \<Rightarrow> for_each ys body s')"
  by (induction xs arbitrary: s) (auto split: option.splits)

lemma for_each_single: "for_each [t] body s = body t s"
  by (simp split: option.splits)

lemma for_each_invariant:
  assumes "\<And>t M. t \<in> set ts \<Longrightarrow> P M \<Longrightarrow> \<exists>M'. body t M = Some M' \<and> P M'" and "P M"
  shows "\<exists>M'. for_each ts body M = Some M' \<and> P M'"
  using assms
proof (induction ts arbitrary: M)
  case Nil
  then show ?case by simp
next
  case (Cons t ts)
  from Cons.prems(1) [of t M] Cons.prems(2)
  obtain M1 where M1: "body t M = Some M1" "P M1" by auto
  from Cons.IH [of M1] Cons.prems(1) M1(2)
  obtain M' where "for_each ts body M1 = Some M'" "P M'" by auto
  with M1(1) show ?case by simp
qed

lemma input_same_rgb:
  assumes "\<forall>a\<in>{input..<input + nat (width * height * channels)}. M1 a = M a"
  shows "same_rgb M input M1 input width height channels"
  unfolding same_rgb_def
proof (intro ballI)
  fix p c assume p: "p \<in> {0..<width * height}" and c: "c \<in> {0..<min channels 3}"
  then have "0 \<le> p" "p < width * height" "0 \<le> c" "c < channels" by auto
  from index_in_bounds [OF this]
  have i: "0 \<le> p * channels + c" "p * channels + c < width * height * channels" .
  then have "idx input (p * channels + c) \<in> {input..<input + nat (width * height * channels)}"
    by (simp add: idx_nonneg)
  with assms show "M (idx input (p * channels + c)) = M1 (idx input (p * channels + c))"
    by simp
qed

lemma apply_box_blur_color_last_store:
  assumes w: "0 < width" and h: "0 < height" and ch: "channels = 1 \<or> 3 \<le> channels"
    and rep: "width * height * channels \<le> INT_MAX" and k: "is_radius (kernel_size sdiv 2)"
    and clear: "\<And>d. 0 \<le> d \<Longrightarrow> d < width * height * 3 - 1 \<Longrightarrow>
                  idx output_rgb (int32 d) \<notin> {input..<input + nat (width * height * channels)}"
  shows "\<exists>M1. apply_box_blur_color M input output_rgb width height channels kernel_size =
           Some (M1(idx output_rgb (int32 (width * height * 3 - 1)) :=
                   word_of_int (average32 M input width height channels (kernel_size sdiv 2)
                                  (width - 1) (height - 1) 2)))"
proof -
  let ?I = "{input..<input + nat (width * height * channels)}"
  let ?P = "\<lambda>M1. \<forall>a\<in>?I. M1 a = M a"
  let ?step = "\<lambda>y x c M.
            case accumulate_color M input width height channels (kernel_size sdiv 2) x y c of
              (s, n) \<Rightarrow>
                (case c_div s n of
                   None \<Rightarrow> None
                 | Some q \<Rightarrow> Some (M(idx output_rgb (int32 (int32 (int32 (int32 (y * width) + x) * 3) + c)) := word_of_int q)))"
  let ?pixel = "\<lambda>y x. for_each [0..2] (?step y x)"
  let ?row = "\<lambda>y. for_each [0..width - 1] (?pixel y)"
  have step: "?step y x c M1 =
      Some (M1(idx output_rgb (int32 ((y * width + x) * 3 + c)) :=
              word_of_int (average32 M input width height channels (kernel_size sdiv 2) x y c)))"
    if "0 \<le> x" "x < width" "0 \<le> y" "y < height" "0 \<le> c" "c < 3" "?P M1" for y x c M1
    using sample_step [OF that(1-4) k that(5,6) ch rep input_same_rgb [OF that(7)]]
    by (simp only: dst_idx_wrapped)
  have early: "\<exists>M2. ?step y x c M1 = Some M2 \<and> ?P M2"
    if b: "0 \<le> x" "x < width" "0 \<le> y" "y < height" "0 \<le> c" "c < 3"
      and d: "(y * width + x) * 3 + c < width * height * 3 - 1" and P: "?P M1" for y x c M1
  proof -
    have "idx output_rgb (int32 ((y * width + x) * 3 + c)) \<notin> ?I"
      by (rule clear [OF dst_in_bounds(1) [OF b] d])
    with P have "?P (M1(idx output_rgb (int32 ((y * width + x) * 3 + c)) :=
              word_of_int (average32 M input width height channels (kernel_size sdiv 2) x y c)))"
      by auto
    with step [OF b P] show ?thesis by blast
  qed
  have hw: "[0..height - 1] = [0..height - 1 - 1] @ [height - 1]"
    "[0..width - 1] = [0..width - 1 - 1] @ [width - 1]"
    using w h by (simp_all add: upto_rec2)
  have c3: "[0..2] = [0..1] @ [2::int]"
    by (simp add: upto_rec2)
  \<comment> \<open>the rows before the last one\<close>
  have "\<exists>M1. for_each [0..height - 1 - 1] ?row M = Some M1 \<and> ?P M1"
  proof (rule for_each_invariant [where P = ?P])
    fix y M1 assume y: "y \<in> set [0..height - 1 - 1]" and P: "?P M1"
    show "\<exists>M2. ?row y M1 = Some M2 \<and> ?P M2"
    proof (rule for_each_invariant [where P = ?P, OF _ P])
      fix x M2 assume x: "x \<in> set [0..width - 1]" and P: "?P M2"
      show "\<exists>M3. ?pixel y x M2 = Some M3 \<and> ?P M3"
      proof (rule for_each_invariant [where P = ?P, OF _ P])
        fix c M3 assume c: "c \<in> set [0..2]" and P: "?P M3"
        from x y c have b: "0 \<le> x" "x < width" "0 \<le> y" "y < height - 1" "0 \<le> c" "c < 3"
          by auto
        have "(y * width + x) * 3 + c < width * (height - 1) * 3"
          by (rule dst_in_bounds(2) [OF b])
        then have d: "(y * width + x) * 3 + c < width * height * 3 - 1"
          using w by (simp add: algebra_simps)
        from b have "y < height" by simp
        from early [OF b(1-3) this b(5,6) d P]
        show "\<exists>M4. ?step y x c M3 = Some M4 \<and> ?P M4" .
      qed
    qed
  qed simp
  then obtain M1 where M1: "for_each [0..height - 1 - 1] ?row M = Some M1" "?P M1"
    by blast
  \<comment> \<open>the pixels of the last row before the last one\<close>
  have "\<exists>M2. for_each [0..width - 1 - 1] (?pixel (height - 1)) M1 = Some M2 \<and> ?P M2"
  proof (rule for_each_invariant [where P = ?P, OF _ M1(2)])
    fix x M2 assume x: "x \<in> set [0..width - 1 - 1]" and P: "?P M2"
    show "\<exists>M3. ?pixel (height - 1) x M2 = Some M3 \<and> ?P M3"
    proof (rule for_each_invariant [where P = ?P, OF _ P])
      fix c M3 assume c: "c \<in> set [0..2]" and P: "?P M3"
      from x c h have b: "0 \<le> x" "x < width" "0 \<le> height - 1" "height - 1 < height" "0 \<le> c" "c < 3"
        by auto
      from x c have "((height - 1) * width + x) * 3 + c \<le> ((height - 1) * width + (width - 2)) * 3 + 2"
        by auto
      then have d: "((height - 1) * width + x) * 3 + c < width * height * 3 - 1"
        by (simp add: algebra_simps)
      from early [OF b d P]
      show "\<exists>M4. ?step (height - 1) x c M3 = Some M4 \<and> ?P M4" .
    qed
  qed
  then obtain M2 where M2: "for_each [0..width - 1 - 1] (?pixel (height - 1)) M1 = Some M2" "?P M2"
    by blast
  \<comment> \<open>the first two samples of the last pixel\<close>
  have "\<exists>M3. for_each [0..1] (?step (height - 1) (width - 1)) M2 = Some M3 \<and> ?P M3"
  proof (rule for_each_invariant [where P = ?P, OF _ M2(2)])
    fix c :: int and M3 assume c: "c \<in> set [0..1]" and P: "?P M3"
    from c w h have b: "0 \<le> width - 1" "width - 1 < width" "0 \<le> height - 1" "height - 1 < height"
      "0 \<le> c" "c < 3"
      by auto
    from c have "((height - 1) * width + (width - 1)) * 3 + c \<le> ((height - 1) * width + (width - 1)) * 3 + 1"
      by auto
    then have d: "((height - 1) * width + (width - 1)) * 3 + c < width * height * 3 - 1"
      by (simp add: algebra_simps)
    from early [OF b d P]
    show "\<exists>M4. ?step (height - 1) (width - 1) c M3 = Some M4 \<and> ?P M4" .
  qed
  then obtain M3 where M3: "for_each [0..1] (?step (height - 1) (width - 1)) M2 = Some M3" "?P M3"
    by blast
  \<comment> \<open>the last store\<close>
  have b: "0 \<le> width - 1" "width - 1 < width" "0 \<le> height - 1" "height - 1 < height"
    "(0::int) \<le> 2" "(2::int) < 3"
    using w h by simp_all
  have e: "((height - 1) * width + (width - 1)) * 3 + 2 = width * height * 3 - 1"
    by (simp add: algebra_simps)
  note last = step [OF b M3(2), unfolded e]
  have "apply_box_blur_color M input output_rgb width height channels kernel_size =
      for_each [0..height - 1] ?row M"
    unfolding apply_box_blur_color_def Let_def for_below_eq by simp
  also have "\<dots> = ?row (height - 1) M1"
    by (subst hw(1)) (simp only: for_each_append M1(1) option.case for_each_single)
  also have "\<dots> = ?pixel (height - 1) (width - 1) M2"
    by (subst hw(2)) (simp only: for_each_append M2(1) option.case for_each_single)
  also have "\<dots> = ?step (height - 1) (width - 1) 2 M3"
    by (subst c3) (simp only: for_each_append M3(1) option.case for_each_single)
  finally show ?thesis
    using last by (intro exI [of _ M3]) simp
qed


text \<open>
  Claim C5 as it is stated (for every input buffer) fails on an image of 30000 by
  30000 samples with one channel and the kernel size 5.  Its output has 2700000000
  bytes, the index of the last one wraps to \<open>- 1594967297\<close>, and with the output buffer
  1594967297 bytes above the input buffer, the two being apart, the last store of the
  sequential function overwrites the first byte of the input.
\<close>

theorem last_store_reaches_the_input:
  "separate 1000000000 (nat (30000 * 30000 * 1)) 2594967297 (nat (30000 * 30000 * 3)) \<and>
   buffer (\<lambda>a. if a = 1000000000 then 255 else 0) 1000000000 1 = [255] \<and>
   map_option (\<lambda>M'. buffer M' 1000000000 1)
     (apply_box_blur_color (\<lambda>a. if a = 1000000000 then 255 else 0)
        1000000000 2594967297 30000 30000 1 5) = Some [0]"
proof -
  define M :: mem where "M = (\<lambda>a. if a = 1000000000 then 255 else 0)"
  have k: "is_radius (5 sdiv 2)"
    by (simp add: is_radius_def signed_divide_int_def)
  have r: "(5::int) sdiv 2 = 2"
    by (simp add: signed_divide_int_def)
  have clear: "idx 2594967297 (int32 d) \<notin> {1000000000..<1000000000 + nat (30000 * 30000 * 1)}"
    if d: "0 \<le> d" "d < 30000 * 30000 * 3 - 1" for d
  proof (cases "d \<le> INT_MAX")
    case True
    with d have "int32 d = d" by (simp add: int32_nonneg_id)
    with d show ?thesis by (simp add: idx_def) linarith
  next
    case False
    with d have "int32 d = d - 4294967296" by (intro int32_above) simp_all
    with d show ?thesis by (simp add: idx_def)
  qed
  have z: "\<forall>p\<in>valid_neighbors 30000 30000 2 (30000 - 1) (30000 - 1).
             input_sample M 1000000000 30000 1 2 p = 0"
    by (auto simp: valid_neighbors_iff input_sample_def idx_def M_def)
  have a: "average32 M 1000000000 30000 30000 1 2 (30000 - 1) (30000 - 1) 2 = 0"
    unfolding average32_def sum.neutral [OF z] by (simp add: int32_def)
  have i: "idx 2594967297 (int32 (30000 * 30000 * 3 - 1)) = 1000000000"
    by (simp add: int32_def idx_def)
  from apply_box_blur_color_last_store [of 30000 30000 1 5 2594967297 1000000000 M, OF _ _ _ _ k clear]
  obtain M1 where "apply_box_blur_color M 1000000000 2594967297 30000 30000 1 5 =
      Some (M1(idx 2594967297 (int32 (30000 * 30000 * 3 - 1)) :=
                word_of_int (average32 M 1000000000 30000 30000 1 (5 sdiv 2) (30000 - 1) (30000 - 1) 2)))"
    by (auto simp: INT_MAX_def)
  then have "map_option (\<lambda>M'. buffer M' 1000000000 1)
      (apply_box_blur_color M 1000000000 2594967297 30000 30000 1 5) = Some [0]"
    by (simp only: r a i) (simp add: buffer_def)
  moreover have "separate 1000000000 (nat (30000 * 30000 * 1)) 2594967297 (nat (30000 * 30000 * 3))"
    by (simp add: separate_def)
  moreover have "buffer M 1000000000 1 = [255]"
    by (simp add: buffer_def M_def)
  ultimately show ?thesis
    unfolding M_def by (intro conjI)
qed

section \<open>The fourth channel\<close>

text \<open>
  Claim C9, for the sizes that the 32-bit indices can hold.  The blur neither reads
  nor writes a fourth channel.  Two images of the same shape, with representable
  input and output sizes, that agree on the first three channels of every pixel (for
  a 4-channel image they may differ in every alpha sample, and the memories may differ
  anywhere else) give the same output bytes, and the run changes exactly the
  \<open>width * height * 3\<close> bytes of the output buffer, whatever the channel count of the
  input.
\<close>

theorem alpha_is_ignored:
  assumes "well_formed input output_rgb width height channels"
    and "0 \<le> kernel_size sdiv 2" and "kernel_size \<le> INT_MAX"
    and "same_rgb M\<^sub>1 input M\<^sub>2 input width height channels"
  shows "\<exists>M\<^sub>1' M\<^sub>2'.
           apply_box_blur_color M\<^sub>1 input output_rgb width height channels kernel_size = Some M\<^sub>1' \<and>
           apply_box_blur_color M\<^sub>2 input output_rgb width height channels kernel_size = Some M\<^sub>2' \<and>
           buffer M\<^sub>1' output_rgb (nat (width * height * 3)) =
             buffer M\<^sub>2' output_rgb (nat (width * height * 3)) \<and>
           length (buffer M\<^sub>1' output_rgb (nat (width * height * 3))) = nat (width * height * 3) \<and>
           (\<forall>a. a \<notin> {output_rgb..<output_rgb + nat (width * height * 3)} \<longrightarrow>
                M\<^sub>1' a = M\<^sub>1 a \<and> M\<^sub>2' a = M\<^sub>2 a)"
proof -
  note ch = well_formedD(3) [OF assms(1)]
  note k = half_is_radius [OF assms(2,3)]
  from apply_box_blur_color_result [OF assms(1) k, of M\<^sub>1]
  obtain M\<^sub>1' where 1: "apply_box_blur_color M\<^sub>1 input output_rgb width height channels kernel_size = Some M\<^sub>1'"
    "\<forall>a. a \<notin> {output_rgb..<output_rgb + nat (width * height * 3)} \<longrightarrow> M\<^sub>1' a = M\<^sub>1 a"
    "buffer M\<^sub>1' output_rgb (nat (width * height * 3)) =
       stored M\<^sub>1 input width height channels (kernel_size sdiv 2)"
    by blast
  from apply_box_blur_color_result [OF assms(1) k, of M\<^sub>2]
  obtain M\<^sub>2' where 2: "apply_box_blur_color M\<^sub>2 input output_rgb width height channels kernel_size = Some M\<^sub>2'"
    "\<forall>a. a \<notin> {output_rgb..<output_rgb + nat (width * height * 3)} \<longrightarrow> M\<^sub>2' a = M\<^sub>2 a"
    "buffer M\<^sub>2' output_rgb (nat (width * height * 3)) =
       stored M\<^sub>2 input width height channels (kernel_size sdiv 2)"
    by blast
  have "stored M\<^sub>1 input width height channels (kernel_size sdiv 2) =
        stored M\<^sub>2 input width height channels (kernel_size sdiv 2)"
    by (rule same_rgb_stored [OF assms(4) ch])
  with 1 2 show ?thesis by simp
qed

theorem alpha_is_ignored_witness:
  "well_formed 0 8 2 1 4 \<and> (0::int) \<le> 3 sdiv 2 \<and> (3::int) \<le> INT_MAX \<and>
   same_rgb (\<lambda>a. if a = 3 \<or> a = 7 then 0 else word_of_nat a) 0
            (\<lambda>a. if a = 3 \<or> a = 7 then 255 else word_of_nat a) 0 2 1 4 \<and>
   (\<lambda>a. if a = 3 \<or> a = 7 then 0 else word_of_nat a) 3 \<noteq>
     ((\<lambda>a. if a = 3 \<or> a = 7 then 255 else word_of_nat a) 3 :: byte) \<and>
   (\<exists>M\<^sub>1' M\<^sub>2'.
      apply_box_blur_color (\<lambda>a. if a = 3 \<or> a = 7 then 0 else word_of_nat a) 0 8 2 1 4 3 = Some M\<^sub>1' \<and>
      apply_box_blur_color (\<lambda>a. if a = 3 \<or> a = 7 then 255 else word_of_nat a) 0 8 2 1 4 3 = Some M\<^sub>2' \<and>
      buffer M\<^sub>1' 8 6 = buffer M\<^sub>2' 8 6)"
proof -
  have wf: "well_formed 0 8 2 1 4" and k: "(0::int) \<le> 3 sdiv 2" "(3::int) \<le> INT_MAX"
    by (simp_all add: well_formed_def separate_def signed_divide_int_def representable_def INT_MAX_def)
  have same: "same_rgb (\<lambda>a. if a = 3 \<or> a = 7 then 0 else word_of_nat a) 0
            (\<lambda>a. if a = 3 \<or> a = 7 then 255 else word_of_nat a) 0 2 1 4"
    unfolding same_rgb_def
  proof (intro ballI)
    fix p c :: int assume "p \<in> {0..<2 * 1}" "c \<in> {0..<min 4 3}"
    then have "p = 0 \<or> p = 1" "c = 0 \<or> c = 1 \<or> c = 2" by auto
    then show "(if idx 0 (p * 4 + c) = 3 \<or> idx 0 (p * 4 + c) = 7 then 0 else word_of_nat (idx 0 (p * 4 + c))) =
      (if idx 0 (p * 4 + c) = 3 \<or> idx 0 (p * 4 + c) = 7 then 255 else (word_of_nat (idx 0 (p * 4 + c)) :: byte))"
      by (auto simp: idx_def)
  qed
  from alpha_is_ignored [OF wf k same] wf k same show ?thesis
    by simp blast
qed

text \<open>
  Claim C9 as it is stated (the output always has exactly \<open>width * height * 3\<close>
  samples) fails on an image of one row of 715827883 samples with one channel and the
  kernel size 5: its output has 2147483649 bytes, the index of the last one wraps to
  \<open>- 2147483648\<close>, and the sequential function stores its last sample 2147483648 bytes
  below the output buffer, outside of it.
\<close>

theorem store_outside_the_output:
  "separate 1000000000 (nat (715827883 * 1 * 1)) 3000000000 (nat (715827883 * 1 * 3)) \<and>
   852516352 \<notin> {3000000000..<3000000000 + nat (715827883 * 1 * 3)} \<and>
   (if (852516352::nat) = 852516352 then 255 else 0) = (255::byte) \<and>
   map_option (\<lambda>M'. M' 852516352)
     (apply_box_blur_color (\<lambda>a. if a = 852516352 then 255 else 0)
        1000000000 3000000000 715827883 1 1 5) = Some 0"
proof -
  define M :: mem where "M = (\<lambda>a. if a = 852516352 then 255 else 0)"
  have k: "is_radius (5 sdiv 2)"
    by (simp add: is_radius_def signed_divide_int_def)
  have r: "(5::int) sdiv 2 = 2"
    by (simp add: signed_divide_int_def)
  have clear: "idx 3000000000 (int32 d) \<notin> {1000000000..<1000000000 + nat (715827883 * 1 * 1)}"
    if d: "0 \<le> d" "d < 715827883 * 1 * 3 - 1" for d
  proof -
    from d have "int32 d = d" by (simp add: int32_nonneg_id INT_MAX_def)
    with d show ?thesis by (simp add: idx_def) linarith
  qed
  have z: "\<forall>p\<in>valid_neighbors 715827883 1 2 (715827883 - 1) (1 - 1).
             input_sample M 1000000000 715827883 1 2 p = 0"
    by (auto simp: valid_neighbors_iff input_sample_def idx_def M_def)
  have a: "average32 M 1000000000 715827883 1 1 2 (715827883 - 1) (1 - 1) 2 = 0"
    unfolding average32_def sum.neutral [OF z] by (simp add: int32_def)
  have i: "idx 3000000000 (int32 (715827883 * 1 * 3 - 1)) = 852516352"
    by (simp add: int32_def idx_def)
  from apply_box_blur_color_last_store [of 715827883 1 1 5 3000000000 1000000000 M, OF _ _ _ _ k clear]
  obtain M1 where "apply_box_blur_color M 1000000000 3000000000 715827883 1 1 5 =
      Some (M1(idx 3000000000 (int32 (715827883 * 1 * 3 - 1)) :=
                word_of_int (average32 M 1000000000 715827883 1 1 (5 sdiv 2) (715827883 - 1) (1 - 1) 2)))"
    by (auto simp: INT_MAX_def)
  then have "map_option (\<lambda>M'. M' 852516352)
      (apply_box_blur_color M 1000000000 3000000000 715827883 1 1 5) = Some 0"
    by (simp only: r a i) simp
  moreover have "separate 1000000000 (nat (715827883 * 1 * 1)) 3000000000 (nat (715827883 * 1 * 3))"
    by (simp add: separate_def)
  ultimately show ?thesis
    unfolding M_def by simp
qed


section \<open>More processes than rows\<close>

lemma empty_rows_no_op:
  "apply_box_blur_mpi M input output_rgb width height channels kernel_size s s = Some M"
  by (simp add: apply_box_blur_mpi_def for_below.simps)

text \<open>
  An allocation that returns a null pointer ends the run in \<open>MPI_Abort\<close>, whatever the
  number of rows of the process.  The C standard lets \<open>malloc (0)\<close>, which is the call
  of line 109 in a process without rows, return a null pointer.
\<close>

lemma failed_allocation_aborts:
  assumes "rank < length procs" and "my_output (procs ! rank) = None"
  shows "\<exists>operation. mpi_main procs output_rgb_root width height channels kernel_size =
           Exited operation EXIT_FAILURE"
proof -
  have "list_ex (\<lambda>rank. my_output (procs ! rank) = None) [0..<length procs]"
    using assms by (auto simp: list_ex_iff)
  then show ?thesis
    by (simp add: mpi_main_def Let_def)
qed

text \<open>
  Claim C6, as the code has it.  With more processes than rows the quotient
  \<open>rows_per_process\<close> is 0: every process but the last has the empty range from 0 to 0,
  blurs nothing and sends 0 bytes, the last process has all the rows from 0 to
  \<open>height\<close>, and every row belongs to exactly one process.  When every allocation of
  the run returns a buffer, the sizes are representable and the window fits, the
  distributed run finishes with the whole blurred image in the output buffer of the
  root.
\<close>

theorem over_partitioning:
  assumes "1 \<le> height" and "height < nproc"
  shows "rows_per_process height nproc = 0 \<and>
         (\<forall>i. 0 \<le> i \<and> i < nproc - 1 \<longrightarrow>
            start_row height nproc i = 0 \<and> end_row height nproc i = 0 \<and>
            my_rows height nproc i * width * 3 = 0 \<and> recv_counts width height nproc i = 0 \<and>
            send_count width height nproc i = 0 \<and>
            apply_box_blur_mpi M input output_rgb width height channels kernel_size
              (start_row height nproc i) (end_row height nproc i) = Some M) \<and>
         start_row height nproc (nproc - 1) = 0 \<and> end_row height nproc (nproc - 1) = height \<and>
         (\<forall>r. 0 \<le> r \<and> r < height \<longrightarrow>
            (\<exists>!i. 0 \<le> i \<and> i < nproc \<and>
                  start_row height nproc i \<le> r \<and> r < end_row height nproc i)) \<and>
         (\<forall>procs output_rgb_root.
            mpi_well_formed procs width height channels \<and> int (length procs) = nproc \<and>
            window_fits (kernel_size sdiv 2) \<longrightarrow>
            (\<exists>M'. mpi_main procs (Some output_rgb_root) width height channels kernel_size =
                    Finished M' \<and>
                  buffer M' output_rgb_root (nat (width * height * 3)) =
                    blurred (memory (procs ! 0)) (the (input_rgb (procs ! 0))) width height channels
                      (kernel_size sdiv 2)))"
proof -
  have q: "rows_per_process height nproc = 0"
    using assms by (simp add: rows_per_process_def sdiv_nonneg_eq_div)
  have s: "start_row height nproc i = 0" for i
    by (simp add: start_row_def q)
  have e: "end_row height nproc i = 0" if "i < nproc - 1" for i
    using that by (simp add: end_row_def s q)
  have l: "end_row height nproc (nproc - 1) = height"
    by (simp add: end_row_def)
  have c: "recv_counts width height nproc i = 0" "send_count width height nproc i = 0"
    if "i < nproc - 1" for i
    using that by (simp_all add: recv_counts_def send_count_def my_rows_def s e [OF that] q int32_def)
  have u: "\<exists>!i. 0 \<le> i \<and> i < nproc \<and> start_row height nproc i \<le> r \<and> r < end_row height nproc i"
    if r: "0 \<le> r" "r < height" for r
  proof (rule ex1I [of _ "nproc - 1"])
    show "0 \<le> nproc - 1 \<and> nproc - 1 < nproc \<and> start_row height nproc (nproc - 1) \<le> r \<and>
        r < end_row height nproc (nproc - 1)"
      using assms r by (simp add: s l)
  next
    fix i assume i: "0 \<le> i \<and> i < nproc \<and> start_row height nproc i \<le> r \<and> r < end_row height nproc i"
    show "i = nproc - 1"
    proof (rule ccontr)
      assume "i \<noteq> nproc - 1"
      with i have "i < nproc - 1" by simp
      from e [OF this] i r show False by simp
    qed
  qed
  have m: "\<exists>M'. mpi_main procs (Some output_rgb_root) width height channels kernel_size =
                    Finished M' \<and>
                  buffer M' output_rgb_root (nat (width * height * 3)) =
                    blurred (memory (procs ! 0)) (the (input_rgb (procs ! 0))) width height channels
                      (kernel_size sdiv 2)"
    if "mpi_well_formed procs width height channels \<and> int (length procs) = nproc \<and>
            window_fits (kernel_size sdiv 2)" for procs output_rgb_root
    using that mpi_main_result [of procs width height channels kernel_size output_rgb_root]
    by (simp add: window_fits_radius stored_exact)
  show ?thesis
    using q s e l u m c
    by (simp add: my_rows_def empty_rows_no_op)
qed

theorem over_partitioning_witness:
  "(1::int) \<le> 2 \<and> (2::int) < 3 \<and>
   mpi_well_formed
     [\<lparr>memory = (\<lambda>a. word_of_nat a), input_rgb = Some 0, my_output = Some 40\<rparr>,
      \<lparr>memory = (\<lambda>a. 0), input_rgb = Some 7, my_output = Some 20\<rparr>,
      \<lparr>memory = (\<lambda>a. 0), input_rgb = Some 7, my_output = Some 20\<rparr>] 1 2 1 \<and>
   window_fits (3 sdiv 2) \<and>
   start_row 2 3 0 = 0 \<and> end_row 2 3 0 = 0 \<and> start_row 2 3 1 = 0 \<and> end_row 2 3 1 = 0 \<and>
   start_row 2 3 2 = 0 \<and> end_row 2 3 2 = 2 \<and>
   (\<exists>!i. 0 \<le> i \<and> i < 3 \<and> start_row 2 3 i \<le> 1 \<and> 1 < end_row 2 3 i) \<and>
   (\<exists>M'. mpi_main
       [\<lparr>memory = (\<lambda>a. word_of_nat a), input_rgb = Some 0, my_output = Some 40\<rparr>,
        \<lparr>memory = (\<lambda>a. 0), input_rgb = Some 7, my_output = Some 20\<rparr>,
        \<lparr>memory = (\<lambda>a. 0), input_rgb = Some 7, my_output = Some 20\<rparr>] (Some 30) 1 2 1 3 = Finished M' \<and>
       buffer M' 30 (nat (1 * 2 * 3)) = blurred (\<lambda>a. word_of_nat a) 0 1 2 1 (3 sdiv 2))"
proof -
  have wf: "mpi_well_formed
     [\<lparr>memory = (\<lambda>a. word_of_nat a), input_rgb = Some 0, my_output = Some 40\<rparr>,
      \<lparr>memory = (\<lambda>a. 0), input_rgb = Some 7, my_output = Some 20\<rparr>,
      \<lparr>memory = (\<lambda>a. 0), input_rgb = Some 7, my_output = Some 20\<rparr>] 1 2 1"
    by (simp add: mpi_well_formed_def separate_def my_rows_def end_row_def representable_def
        INT_MAX_def start_row_def rows_per_process_def signed_divide_int_def)
  have k: "window_fits (3 sdiv 2)"
    by (simp add: window_fits_def INT_MAX_def signed_divide_int_def)
  note T = over_partitioning [of 2 3 1 "\<lambda>a. 0" 0 0 1 3]
  from T have a: "start_row 2 3 0 = 0 \<and> end_row 2 3 0 = 0 \<and> start_row 2 3 1 = 0 \<and> end_row 2 3 1 = 0 \<and>
   start_row 2 3 2 = 0 \<and> end_row 2 3 2 = 2" by simp
  from T have b: "\<exists>!i. 0 \<le> i \<and> i < 3 \<and> start_row 2 3 i \<le> 1 \<and> 1 < end_row 2 3 i" by simp
  have c: "\<exists>M'. mpi_main
       [\<lparr>memory = (\<lambda>a. word_of_nat a), input_rgb = Some 0, my_output = Some 40\<rparr>,
        \<lparr>memory = (\<lambda>a. 0), input_rgb = Some 7, my_output = Some 20\<rparr>,
        \<lparr>memory = (\<lambda>a. 0), input_rgb = Some 7, my_output = Some 20\<rparr>] (Some 30) 1 2 1 3 = Finished M' \<and>
       buffer M' 30 (nat (1 * 2 * 3)) = blurred (\<lambda>a. word_of_nat a) 0 1 2 1 (3 sdiv 2)"
    using T [THEN conjunct2, THEN conjunct2, THEN conjunct2, THEN conjunct2, THEN conjunct2,
        rule_format,
        of "[\<lparr>memory = (\<lambda>a. word_of_nat a), input_rgb = Some 0, my_output = Some 40\<rparr>,
        \<lparr>memory = (\<lambda>a. 0), input_rgb = Some 7, my_output = Some 20\<rparr>,
        \<lparr>memory = (\<lambda>a. 0), input_rgb = Some 7, my_output = Some 20\<rparr>]" 30] wf k
    by simp
  from wf k a b c show ?thesis by simp
qed

text \<open>
  Claim C6 as it is stated (the empty ranges are those of trailing workers) fails: with
  2 rows and 3 processes the last process has the rows 0 and 1, and the processes with
  an empty range are the first two.
\<close>

theorem last_worker_has_the_rows:
  "(2::int) < 3 \<and> start_row 2 3 2 = 0 \<and> end_row 2 3 2 = 2 \<and>
   start_row 2 3 2 \<noteq> end_row 2 3 2 \<and>
   start_row 2 3 0 = end_row 2 3 0 \<and> start_row 2 3 1 = end_row 2 3 1"
  by (simp add: start_row_def end_row_def rows_per_process_def signed_divide_int_def)


section \<open>The gather at the root\<close>








end
